theory Spec2Isabelle
  imports Main "HOL-Library.Char_ord" "HOL-Library.List_Lexorder" "HOL-Library.Multiset"
begin

section \<open>The eslint-friendly-formatter report function (src/index.js)\<close>

text \<open>
  The module exports one function from the engine's results to the report string.
  Strings are \<^typ>\<open>string\<close>; the two glyphs outside ASCII are written as their UTF-8
  bytes. Numbers that the code reads are line, column, severity and counters: natural
  numbers. A property that a JavaScript object may lack is an \<^typ>\<open>'a option\<close>, with
  \<^term>\<open>None\<close> for \<^verbatim>\<open>undefined\<close>.

  The packages the module requires (chalk, text-table, path, minimist) and the module
  \<^verbatim>\<open>./process\<close> are not part of the source file. What they return is a parameter
  of the model: the record \<open>env\<close> holds the functions, the record \<open>config\<close> the values
  read from \<^verbatim>\<open>process.env\<close> and from the parsed arguments.
\<close>

subsection \<open>Characters and numbers as text\<close>

definition nl :: string where
  "nl = [CHR 0x0A]"

definition tab :: string where
  "tab = [CHR 0x09]"

definition cross :: string where
  "cross = [CHR 0xE2, CHR 0x9C, CHR 0x98]"

definition warn :: string where
  "warn = [CHR 0xE2, CHR 0x9A, CHR 0xA0]"

text \<open>Number to string conversion of a counter: its decimal digits.\<close>

fun digits :: "nat \<Rightarrow> string" where
  "digits n = (if n < 10 then [''0123456789'' ! n]
               else digits (n div 10) @ [''0123456789'' ! (n mod 10)])"

declare digits.simps [simp del]

subsection \<open>Data model\<close>

text \<open>
  A message of the engine (one diagnostic), and a per-file result. The result is
  polymorphic in what its \<open>messages\<close> array holds: the messages themselves, or their
  addresses where the identity of the objects matters.
\<close>

record message =
  ruleId :: "string option"
  severity :: nat
  fatal :: "bool option"
  line :: "nat option"
  column :: "nat option"
  message :: string
  source :: "string option"

record 'm fileResult =
  filePath :: string
  messages :: "'m list option"

text \<open>
  An entry of the flattened list: the object
  \<^verbatim>\<open>extend({ filePath: ... }, message)\<close>, that is the message's properties and
  \<open>filePath\<close>.
\<close>

record entry = message +
  filePath :: string

record config =
  absolutePathsToFile :: bool
  groupByIssue :: bool
  filterRule :: "string option"

datatype style = Red | Yellow | Green | Cyan | Bold

datatype align = NoAlign | AlignL | AlignR

text \<open>
  \<open>chalk [s1, s2] x\<close> stands for \<^verbatim>\<open>chalk.s1.s2(x)\<close>, \<open>table rows align len\<close> for
  \<^verbatim>\<open>table(rows, { align: align, stringLength: len })\<close>.
\<close>

record env =
  chalk :: "style list \<Rightarrow> string \<Rightarrow> string"
  stripColor :: "string \<Rightarrow> string"
  table :: "string list list \<Rightarrow> align list \<Rightarrow> (string \<Rightarrow> nat) \<Rightarrow> string"
  resolve :: "string \<Rightarrow> string"
  localeCompare :: "string \<Rightarrow> string \<Rightarrow> int"

subsection \<open>Helpers\<close>

definition pluralize :: "string \<Rightarrow> nat \<Rightarrow> string" where
  "pluralize word count' = (if count' = 1 then word else word @ ''s'')"

definition subtleLog :: "env \<Rightarrow> string \<Rightarrow> string" where
  "subtleLog ev args = chalk ev [Bold] args"

text \<open>
  \<open>getKeyLink\<close> computes \<^verbatim>\<open>noLinkRules\<close> and \<^verbatim>\<open>url\<close> and uses neither; its
  result is the coloured key in bold.
\<close>

definition getKeyLink :: "env \<Rightarrow> string \<Rightarrow> bool \<Rightarrow> string" where
  "getKeyLink ev key isError =
     (let keyColor = (if isError then chalk ev [Red] key else chalk ev [Yellow] key)
      in subtleLog ev keyColor)"

text \<open>
  \<^verbatim>\<open>Array.prototype.sort(compare)\<close>. ECMAScript requires a stable sort; for a
  consistent comparator every stable sort returns the same array, the one insertion
  sort returns. An element goes before the first element it does not compare greater
  than. For a comparator that is not consistent (the one of the entries is not when a
  line, a column or, with grouping on, a \<open>ruleId\<close> is absent) the standard leaves the
  order to the engine; the statements below about an order are about lists on which the
  comparisons are consistent.
\<close>

fun insertBy :: "('a \<Rightarrow> 'a \<Rightarrow> int) \<Rightarrow> 'a \<Rightarrow> 'a list \<Rightarrow> 'a list" where
  "insertBy cmp x [] = [x]"
| "insertBy cmp x (y # ys) =
     (if cmp x y \<le> 0 then x # y # ys else y # insertBy cmp x ys)"

definition arraySort :: "('a \<Rightarrow> 'a \<Rightarrow> int) \<Rightarrow> 'a list \<Rightarrow> 'a list" where
  "arraySort cmp xs = foldr (insertBy cmp) xs []"

text \<open>
  A tally object (\<^verbatim>\<open>errorsHash\<close>, \<^verbatim>\<open>warningsHash\<close>): its keys in insertion
  order with their counts, the order in which \<^verbatim>\<open>Object.keys\<close> lists keys that are
  not array indices. A property key is a string: \<^verbatim>\<open>hash[undefined]\<close> reads and
  writes the property named \<^verbatim>\<open>"undefined"\<close>. \<open>hashGet\<close> and \<open>hashSet\<close> are
  \<^verbatim>\<open>hash[key]\<close> read and written; \<open>hashCount\<close> reads a count, 0 for a key
  that is not there. The model has the own keys of the object only: a rule named like a
  property that every object inherits (\<^verbatim>\<open>constructor\<close>, \<^verbatim>\<open>toString\<close>) is
  not covered.
\<close>

type_synonym hash = "(string \<times> nat) list"

fun propertyKey :: "string option \<Rightarrow> string" where
  "propertyKey None = ''undefined''"
| "propertyKey (Some s) = s"

fun hashGet :: "hash \<Rightarrow> string \<Rightarrow> nat option" where
  "hashGet [] k = None"
| "hashGet ((k', n) # h) k = (if k = k' then Some n else hashGet h k)"

fun hashSet :: "hash \<Rightarrow> string \<Rightarrow> nat \<Rightarrow> hash" where
  "hashSet [] k v = [(k, v)]"
| "hashSet ((k', n) # h) k v = (if k = k' then (k', v) # h else (k', n) # hashSet h k v)"

text \<open>\<^verbatim>\<open>hash[key] = (hash[key] || 0) + 1\<close>\<close>

definition hashIncr :: "hash \<Rightarrow> string option \<Rightarrow> hash" where
  "hashIncr h rid =
     (let k = propertyKey rid
      in hashSet h k ((case hashGet h k of None \<Rightarrow> 0 | Some n \<Rightarrow> n) + 1))"

definition hashCount :: "hash \<Rightarrow> string \<Rightarrow> nat" where
  "hashCount h k = (case hashGet h k of None \<Rightarrow> 0 | Some n \<Rightarrow> n)"

text \<open>
  \<open>printSummary\<close>: one row per key, sorted by the comparator of the code, which never
  returns 0. It is not consistent on keys of equal count, so the order among such keys
  is the engine's and the one computed here is one of the possible ones. The count in a
  row is a number in the code; the table prints it in decimal.
\<close>

definition printSummary :: "env \<Rightarrow> hash \<Rightarrow> string \<Rightarrow> style \<Rightarrow> string" where
  "printSummary ev h title method =
     (let res = nl @ chalk ev [method] (title @ '':'' @ nl)
      in res @ table ev
           (map (\<lambda>key. ['''', digits (hashCount h key), getKeyLink ev key (method = Red)])
              (arraySort (\<lambda>a b. if hashCount h a > hashCount h b then - 1 else 1)
                 (map fst h)))
           [NoAlign, AlignR, AlignL]
           (\<lambda>str. length (stripColor ev str)))"

subsection \<open>Flattening and sorting\<close>

text \<open>
  \<^verbatim>\<open>results.forEach\<close>: each result appends one entry per message. The entry is the
  message extended by \<open>filePath\<close>.
\<close>

definition entryOf :: "env \<Rightarrow> config \<Rightarrow> 'm fileResult \<Rightarrow> message \<Rightarrow> entry" where
  "entryOf ev cfg result m =
     message.extend m
       (entry.fields (if absolutePathsToFile cfg then resolve ev (fileResult.filePath result)
                      else fileResult.filePath result))"

definition flatten :: "env \<Rightarrow> config \<Rightarrow> message fileResult list \<Rightarrow> entry list" where
  "flatten ev cfg results =
     foldl (\<lambda>entries result.
              let msgs = (case messages result of None \<Rightarrow> [] | Some ms \<Rightarrow> ms)
              in entries @ map (entryOf ev cfg result) msgs)
       [] results"

text \<open>
  The relational operators on operands that may be \<^verbatim>\<open>undefined\<close>: a comparison with
  \<^verbatim>\<open>undefined\<close> is false both ways. Two strings compare by code units,
  lexicographically.
\<close>

fun jsGreater :: "'a::linorder option \<Rightarrow> 'a option \<Rightarrow> bool" where
  "jsGreater (Some x) (Some y) = (x > y)"
| "jsGreater _ _ = False"

fun jsLess :: "'a::linorder option \<Rightarrow> 'a option \<Rightarrow> bool" where
  "jsLess (Some x) (Some y) = (x < y)"
| "jsLess _ _ = False"

definition compareEntries :: "env \<Rightarrow> config \<Rightarrow> entry \<Rightarrow> entry \<Rightarrow> int" where
  "compareEntries ev cfg a b =
     (if severity a > severity b then 1
      else if severity a < severity b then - 1
      else if groupByIssue cfg \<and> jsGreater (ruleId a) (ruleId b) then 1
      else if groupByIssue cfg \<and> jsLess (ruleId a) (ruleId b) then - 1
      else let pathSort = localeCompare ev (filePath a) (filePath b)
           in if pathSort \<noteq> 0 then pathSort
              else if jsGreater (line a) (line b) then 1
              else if jsLess (line a) (line b) then - 1
              else if jsGreater (column a) (column b) then 1
              else if jsLess (column a) (column b) then - 1
              else 0)"

subsection \<open>Building the rows\<close>

text \<open>\<^verbatim>\<open>str.charAt(i)\<close>: the empty string out of range.\<close>

definition charAt :: "string \<Rightarrow> nat \<Rightarrow> string" where
  "charAt s i = (if i < length s then [s ! i] else [])"

text \<open>
  The loop \<^verbatim>\<open>for (var i = 0; i < message.column; i++)\<close> that builds the pointer.
\<close>

function arrowLoop :: "string \<Rightarrow> nat option \<Rightarrow> nat \<Rightarrow> string \<Rightarrow> string" where
  "arrowLoop src col i arrow =
     (if jsLess (Some i) col
      then arrowLoop src col (i + 1)
             (if charAt src i = tab then arrow @ tab else arrow @ '' '')
      else arrow)"
  by pat_completeness auto
termination
proof (relation "measure (\<lambda>(src, col, i, arrow). (case col of None \<Rightarrow> 0 | Some c \<Rightarrow> c - i))")
  show "wf (measure (\<lambda>(src, col, i, arrow). (case col of None \<Rightarrow> 0 | Some c \<Rightarrow> c - i)))"
    by simp
next
  fix src :: string and col :: "nat option" and i :: nat and arrow :: string
  assume "jsLess (Some i) col"
  then show "((src, col, i + 1, if charAt src i = tab then arrow @ tab else arrow @ '' ''),
              (src, col, i, arrow))
             \<in> measure (\<lambda>(src, col, i, arrow). (case col of None \<Rightarrow> 0 | Some c \<Rightarrow> c - i))"
    by (cases col) auto
qed

declare arrowLoop.simps [simp del]

definition hasSource :: "'a message_scheme \<Rightarrow> bool" where
  "hasSource m = (case source m of None \<Rightarrow> False | Some s \<Rightarrow> length s < 1000)"

definition arrowOf :: "'a message_scheme \<Rightarrow> string" where
  "arrowOf m =
     (if hasSource m then arrowLoop (the (source m)) (column m) 0 [] @ ''^'' else [])"

text \<open>\<^verbatim>\<open>message.message.replace(/\.$/, '')\<close>\<close>

definition stripPeriod :: "string \<Rightarrow> string" where
  "stripPeriod s = (if s \<noteq> [] \<and> last s = CHR ''.'' then butlast s else s)"

definition isErrorMessage :: "'a message_scheme \<Rightarrow> bool" where
  "isErrorMessage m = (fatal m = Some True \<or> severity m = 2)"

definition marker :: string where
  "marker = ''$MARKER$  ''"

text \<open>
  The row pushed for one entry. The callback also computes
  \<^verbatim>\<open>link = getFileLink(filePath, line, column)\<close> and never reads it.
\<close>

definition rowOf :: "env \<Rightarrow> entry \<Rightarrow> string list" where
  "rowOf ev m =
     (let isError = isErrorMessage m;
          messageType = (if isError then chalk ev [Red] cross else chalk ev [Yellow] warn);
          line' = (case line m of None \<Rightarrow> 0 | Some l \<Rightarrow> l);
          column' = (case column m of None \<Rightarrow> 0 | Some c \<Rightarrow> c);
          msg = stripPeriod (message m)
      in ['''',
          messageType @ ''  '' @
            getKeyLink ev (case ruleId m of None \<Rightarrow> [] | Some r \<Rightarrow> r)
              isError,
          (if isError then chalk ev [Bold, Red] msg else chalk ev [Bold, Yellow] msg),
          marker @ chalk ev [Bold] (filePath m) @ '' : '' @
            chalk ev [Bold, Green] (digits line' @ '':'' @ digits column') @
            marker @ (if hasSource m then the (source m) @ marker @ arrowOf m else [])])"

text \<open>The variables the reduce callback updates, and the callback.\<close>

record acc =
  rows :: "string list list"
  errors :: nat
  warnings :: nat
  errorsHash :: hash
  warningsHash :: hash
  summaryColor :: style

definition initAcc :: acc where
  "initAcc = \<lparr>rows = [], errors = 0, warnings = 0, errorsHash = [], warningsHash = [],
              summaryColor = Yellow\<rparr>"

definition filteredOut :: "config \<Rightarrow> entry \<Rightarrow> bool" where
  "filteredOut cfg m =
     (case filterRule cfg of
        None \<Rightarrow> False
      | Some f \<Rightarrow> if f \<noteq> [] then ruleId m \<noteq> Some f else False)"

definition step :: "env \<Rightarrow> config \<Rightarrow> acc \<Rightarrow> entry \<Rightarrow> acc" where
  "step ev cfg a m =
     (if filteredOut cfg m then a
      else if isErrorMessage m
      then a\<lparr>summaryColor := Red,
             errorsHash := hashIncr (errorsHash a) (ruleId m),
             errors := errors a + 1,
             rows := rows a @ [rowOf ev m]\<rparr>
      else a\<lparr>summaryColor := Yellow,
             warningsHash := hashIncr (warningsHash a) (ruleId m),
             warnings := warnings a + 1,
             rows := rows a @ [rowOf ev m]\<rparr>)"

fun replaceMarker :: "string \<Rightarrow> string" where
  "replaceMarker [] = []"
| "replaceMarker (c # cs) =
     (if take 8 (c # cs) = ''$MARKER$'' then nl @ replaceMarker (drop 7 cs)
      else c # replaceMarker cs)"

subsection \<open>The exported function\<close>

definition summaryLine :: "nat \<Rightarrow> nat \<Rightarrow> nat \<Rightarrow> string" where
  "summaryLine total' errs warns =
     concat [cross @ '' '', digits total', pluralize '' problem'' total', '' ('',
             digits errs, pluralize '' error'' errs, '', '',
             digits warns, pluralize '' warning'' warns, '')'' @ nl]"

definition separator :: string where
  "separator = nl @ nl @ ''==========================================================''"

definition formatter :: "env \<Rightarrow> config \<Rightarrow> message fileResult list option \<Rightarrow> string" where
  "formatter ev cfg results0 =
     (let results = (case results0 of None \<Rightarrow> [] | Some rs \<Rightarrow> rs);
          entries = arraySort (compareEntries ev cfg) (flatten ev cfg results);
          a = foldl (step ev cfg) initAcc entries;
          output = nl @ replaceMarker (table ev (rows a) [NoAlign, AlignL, AlignL, AlignL]
                                        (\<lambda>str. length (stripColor ev str))) @ nl @ nl;
          total' = length entries;
          output' =
            (if total' > 0
             then output @ chalk ev [summaryColor a, Bold]
                             (summaryLine total' (errors a) (warnings a)) @
                  (if errors a > 0 then printSummary ev (errorsHash a) ''Errors'' Red else []) @
                  (if warnings a > 0 then printSummary ev (warningsHash a) ''Warnings'' Yellow
                   else []) @
                  separator
             else output)
      in if total' > 0 then output' else [])"

subsection \<open>Flattening on a store of objects\<close>

text \<open>
  The loop of lines 113 to 120 once more, now with the objects of the engine in a store,
  to tell which objects the loop writes. An object is the table of its own properties, the
  store is a list of objects and an address is an index into it. A file result holds the
  addresses of its messages; the callback reads \<^verbatim>\<open>result.messages\<close> and
  \<^verbatim>\<open>result.filePath\<close> and assigns to neither.
\<close>

datatype jsval = JStr string | JNum nat | JBool bool

type_synonym obj = "string \<Rightarrow> jsval option"

type_synonym heap = "obj list"

text \<open>
  Modelled from the spec: the package \<^verbatim>\<open>extend\<close> is not part of the source file.
  The specification describes it as a shallow merge that attaches properties without
  mutating the engine's original: \<^verbatim>\<open>extend(target, src)\<close> copies every own property
  of \<open>src\<close> into \<open>target\<close>, writes to \<open>target\<close> only, and returns it.
\<close>

definition extend :: "heap \<Rightarrow> nat \<Rightarrow> nat \<Rightarrow> heap" where
  "extend h target src = h[target := (h ! target) ++ (h ! src)]"

text \<open>The object literal \<^verbatim>\<open>{ filePath: ... }\<close> is a new object of the store.\<close>

definition newObject :: "heap \<Rightarrow> obj \<Rightarrow> heap \<times> nat" where
  "newObject h ob = (h @ [ob], length h)"

definition pathOf :: "env \<Rightarrow> config \<Rightarrow> 'm fileResult \<Rightarrow> string" where
  "pathOf ev cfg result =
     (if absolutePathsToFile cfg then resolve ev (fileResult.filePath result)
      else fileResult.filePath result)"

text \<open>The callback of \<^verbatim>\<open>messages.map\<close>, the map, and the loop over the results.\<close>

definition copyMessage :: "env \<Rightarrow> config \<Rightarrow> nat fileResult \<Rightarrow> heap \<Rightarrow> nat \<Rightarrow> heap \<times> nat" where
  "copyMessage ev cfg result h m =
     (let (h1, target) = newObject h [''filePath'' \<mapsto> JStr (pathOf ev cfg result)]
      in (extend h1 target m, target))"

fun mapMessages :: "env \<Rightarrow> config \<Rightarrow> nat fileResult \<Rightarrow> heap \<Rightarrow> nat list \<Rightarrow> heap \<times> nat list" where
  "mapMessages ev cfg result h [] = (h, [])"
| "mapMessages ev cfg result h (m # ms) =
     (let (h1, e) = copyMessage ev cfg result h m;
          (h2, es) = mapMessages ev cfg result h1 ms
      in (h2, e # es))"

fun flattenStore ::
  "env \<Rightarrow> config \<Rightarrow> heap \<Rightarrow> nat list \<Rightarrow> nat fileResult list \<Rightarrow> heap \<times> nat list" where
  "flattenStore ev cfg h entries [] = (h, entries)"
| "flattenStore ev cfg h entries (result # results) =
     (let msgs = (case messages result of None \<Rightarrow> [] | Some ms \<Rightarrow> ms);
          (h1, es) = mapMessages ev cfg result h msgs
      in flattenStore ev cfg h1 (entries @ es) results)"

subsection \<open>Notions used in the statements\<close>

text \<open>The pointer's character under index \<open>i\<close> of the source line.\<close>

definition pointerChar :: "string \<Rightarrow> nat \<Rightarrow> char" where
  "pointerChar src i = (if i < length src \<and> src ! i = CHR 0x09 then CHR 0x09 else CHR '' '')"

text \<open>
  The order of the sorter in the words of the specification: tuple comparison, the first
  key that differs decides. The keys are severity, \<open>ruleId\<close> (only when grouping is
  on; an absent \<open>ruleId\<close> counts as the empty string), the path by the locale's
  comparison, line and column. \<open>sameKeys\<close> holds when no key differs.
\<close>

definition ruleKey :: "'a message_scheme \<Rightarrow> string" where
  "ruleKey m = (case ruleId m of None \<Rightarrow> [] | Some r \<Rightarrow> r)"

definition specBefore :: "env \<Rightarrow> config \<Rightarrow> entry \<Rightarrow> entry \<Rightarrow> bool" where
  "specBefore ev cfg a b =
     (severity a < severity b \<or>
      (severity a = severity b \<and>
       ((groupByIssue cfg \<and> ruleKey a < ruleKey b) \<or>
        ((\<not> groupByIssue cfg \<or> ruleKey a = ruleKey b) \<and>
         (localeCompare ev (filePath a) (filePath b) < 0 \<or>
          (localeCompare ev (filePath a) (filePath b) = 0 \<and>
           (the (line a) < the (line b) \<or>
            (the (line a) = the (line b) \<and> the (column a) < the (column b)))))))))"

definition sameKeys :: "env \<Rightarrow> config \<Rightarrow> entry \<Rightarrow> entry \<Rightarrow> bool" where
  "sameKeys ev cfg a b =
     (severity a = severity b \<and> (\<not> groupByIssue cfg \<or> ruleKey a = ruleKey b) \<and>
      localeCompare ev (filePath a) (filePath b) = 0 \<and>
      the (line a) = the (line b) \<and> the (column a) = the (column b))"

text \<open>An entry that has line and column, and \<open>ruleId\<close> when grouping is on.\<close>

definition wellKeyed :: "config \<Rightarrow> entry \<Rightarrow> bool" where
  "wellKeyed cfg e =
     (line e \<noteq> None \<and> column e \<noteq> None \<and> (\<not> groupByIssue cfg \<or> ruleId e \<noteq> None))"

text \<open>
  A consistent comparator, as \<^verbatim>\<open>Array.prototype.sort\<close> asks for: the sign of
  \<open>c x y\<close> is opposite to the sign of \<open>c y x\<close>, and "not greater" is transitive.
\<close>

definition consistent :: "('a \<Rightarrow> 'a \<Rightarrow> int) \<Rightarrow> bool" where
  "consistent c =
     ((\<forall>x y. (c x y < 0) = (0 < c y x)) \<and>
      (\<forall>x y z. c x y \<le> 0 \<longrightarrow> c y z \<le> 0 \<longrightarrow> c x z \<le> 0))"

text \<open>
  The comparator of the code on entries that have all keys, written as a lexicographic
  combination of three-way comparisons.
\<close>

definition threeWay :: "'a::linorder \<Rightarrow> 'a \<Rightarrow> int" where
  "threeWay x y = (if x > y then 1 else if x < y then - 1 else 0)"

definition lexCmp :: "int \<Rightarrow> int \<Rightarrow> int" where
  "lexCmp x y = (if x \<noteq> 0 then x else y)"

definition keyCompare :: "env \<Rightarrow> config \<Rightarrow> entry \<Rightarrow> entry \<Rightarrow> int" where
  "keyCompare ev cfg a b =
     lexCmp (threeWay (severity a) (severity b))
       (lexCmp (if groupByIssue cfg then threeWay (ruleKey a) (ruleKey b) else 0)
          (lexCmp (localeCompare ev (filePath a) (filePath b))
             (lexCmp (threeWay (the (line a)) (the (line b)))
                (threeWay (the (column a)) (the (column b))))))"

text \<open>
  The messages of all results in order, each with its result, and the object that the
  loop makes for one of them.
\<close>

definition refPairs :: "nat fileResult list \<Rightarrow> (nat fileResult \<times> nat) list" where
  "refPairs results =
     concat (map (\<lambda>r. map (Pair r) (case messages r of None \<Rightarrow> [] | Some ms \<Rightarrow> ms)) results)"

definition copyOf :: "env \<Rightarrow> config \<Rightarrow> heap \<Rightarrow> nat fileResult \<times> nat \<Rightarrow> obj" where
  "copyOf ev cfg h = (\<lambda>(r, a). [''filePath'' \<mapsto> JStr (pathOf ev cfg r)] ++ (h ! a))"

text \<open>
  The object of a message, the entry that the formatter reads from an object, and a store
  with address-valued results that stands for value-valued results.
\<close>

definition objOf :: "message \<Rightarrow> obj" where
  "objOf m =
     (\<lambda>name.
        if name = ''ruleId'' then map_option JStr (ruleId m)
        else if name = ''severity'' then Some (JNum (severity m))
        else if name = ''fatal'' then map_option JBool (fatal m)
        else if name = ''line'' then map_option JNum (line m)
        else if name = ''column'' then map_option JNum (column m)
        else if name = ''message'' then Some (JStr (message m))
        else if name = ''source'' then map_option JStr (source m)
        else None)"

definition readStr :: "obj \<Rightarrow> string \<Rightarrow> string option" where
  "readStr ob name = (case ob name of Some (JStr s) \<Rightarrow> Some s | _ \<Rightarrow> None)"

definition readNum :: "obj \<Rightarrow> string \<Rightarrow> nat option" where
  "readNum ob name = (case ob name of Some (JNum n) \<Rightarrow> Some n | _ \<Rightarrow> None)"

definition readBool :: "obj \<Rightarrow> string \<Rightarrow> bool option" where
  "readBool ob name = (case ob name of Some (JBool b) \<Rightarrow> Some b | _ \<Rightarrow> None)"

definition readEntry :: "obj \<Rightarrow> entry" where
  "readEntry ob =
     \<lparr>ruleId = readStr ob ''ruleId'',
      severity = (case readNum ob ''severity'' of None \<Rightarrow> 0 | Some n \<Rightarrow> n),
      fatal = readBool ob ''fatal'',
      line = readNum ob ''line'',
      column = readNum ob ''column'',
      message = (case readStr ob ''message'' of None \<Rightarrow> [] | Some s \<Rightarrow> s),
      source = readStr ob ''source'',
      filePath = (case readStr ob ''filePath'' of None \<Rightarrow> [] | Some s \<Rightarrow> s)\<rparr>"

definition represents :: "heap \<Rightarrow> nat fileResult list \<Rightarrow> message fileResult list \<Rightarrow> bool" where
  "represents h refs vals =
     list_all2
       (\<lambda>ra rv. fileResult.filePath ra = fileResult.filePath rv \<and>
                rel_option (list_all2 (\<lambda>a m. a < length h \<and> h ! a = objOf m))
                  (messages ra) (messages rv))
       refs vals"

subsection \<open>Sample collaborators and inputs\<close>

text \<open>
  Collaborators for the closed examples: chalk with colour switched off (every style is
  the identity), a table that ends every cell with two spaces and every row with a
  newline, a resolver that prefixes a working directory, and comparison of paths by code
  units.
\<close>

definition codeUnitCompare :: "string \<Rightarrow> string \<Rightarrow> int" where
  "codeUnitCompare a b = (if a < b then - 1 else if b < a then 1 else 0)"

definition plainEnv :: env where
  "plainEnv =
     \<lparr>chalk = (\<lambda>styles s. s),
      stripColor = (\<lambda>s. s),
      table = (\<lambda>rs al len. concat (map (\<lambda>r. concat (map (\<lambda>c. c @ ''  '') r) @ nl) rs)),
      resolve = (\<lambda>p. ''/cwd/'' @ p),
      localeCompare = codeUnitCompare\<rparr>"

definition noOptions :: config where
  "noOptions = \<lparr>absolutePathsToFile = False, groupByIssue = False, filterRule = None\<rparr>"

definition unusedFilter :: config where
  "unusedFilter =
     \<lparr>absolutePathsToFile = False, groupByIssue = False, filterRule = Some ''no-unused-vars''\<rparr>"

definition semiFilter :: config where
  "semiFilter = \<lparr>absolutePathsToFile = False, groupByIssue = False, filterRule = Some ''semi''\<rparr>"

definition emptyFilter :: config where
  "emptyFilter = \<lparr>absolutePathsToFile = False, groupByIssue = False, filterRule = Some []\<rparr>"

definition groupOptions :: config where
  "groupOptions = \<lparr>absolutePathsToFile = False, groupByIssue = True, filterRule = None\<rparr>"

definition absOptions :: config where
  "absOptions = \<lparr>absolutePathsToFile = True, groupByIssue = False, filterRule = None\<rparr>"

definition semiMessage :: message where
  "semiMessage =
     \<lparr>ruleId = Some ''semi'', severity = 2, fatal = None, line = Some 1, column = Some 8,
      message = ''Missing semicolon.'', source = Some ''  const x = 1''\<rparr>"

definition unusedMessage :: message where
  "unusedMessage =
     \<lparr>ruleId = Some ''no-unused-vars'', severity = 1, fatal = None, line = Some 1,
      column = Some 8, message = ''x is defined but never used'', source = None\<rparr>"

definition parseErrorMessage :: message where
  "parseErrorMessage =
     \<lparr>ruleId = None, severity = 2, fatal = Some True, line = Some 3, column = Some 1,
      message = ''Parsing error: Unexpected token'', source = None\<rparr>"

definition tabMessage :: message where
  "tabMessage =
     \<lparr>ruleId = Some ''no-tabs'', severity = 1, fatal = None, line = Some 2, column = Some 3,
      message = ''Unexpected tab character.'', source = Some (tab @ ''x = 1'')\<rparr>"

definition quotesMessage :: message where
  "quotesMessage =
     \<lparr>ruleId = Some ''quotes'', severity = 2, fatal = None, line = Some 1, column = Some 8,
      message = ''Strings must use singlequote.'', source = Some ''  const x = 1''\<rparr>"

definition semiResults :: "message fileResult list" where
  "semiResults = [\<lparr>fileResult.filePath = ''a.js'', messages = Some [semiMessage]\<rparr>]"

definition mixedResults :: "message fileResult list" where
  "mixedResults =
     [\<lparr>fileResult.filePath = ''a.js'', messages = Some [unusedMessage, semiMessage]\<rparr>]"

definition tiedResults :: "message fileResult list" where
  "tiedResults =
     [\<lparr>fileResult.filePath = ''a.js'', messages = Some [semiMessage, quotesMessage]\<rparr>]"

definition tiedResultsSwapped :: "message fileResult list" where
  "tiedResultsSwapped =
     [\<lparr>fileResult.filePath = ''a.js'', messages = Some [quotesMessage, semiMessage]\<rparr>]"

definition parseResults :: "message fileResult list" where
  "parseResults =
     [\<lparr>fileResult.filePath = ''a.js'', messages = Some [semiMessage]\<rparr>,
      \<lparr>fileResult.filePath = ''b.js'', messages = Some [parseErrorMessage]\<rparr>]"

definition groupedResults :: "message fileResult list" where
  "groupedResults =
     [\<lparr>fileResult.filePath = ''b.js'', messages = Some [semiMessage, quotesMessage]\<rparr>,
      \<lparr>fileResult.filePath = ''a.js'', messages = Some [semiMessage]\<rparr>]"

definition lineTwoMessage :: message where
  "lineTwoMessage =
     \<lparr>ruleId = Some ''semi'', severity = 2, fatal = None, line = Some 2, column = Some 1,
      message = ''Missing semicolon.'', source = None\<rparr>"

definition noLineMessage :: message where
  "noLineMessage =
     \<lparr>ruleId = Some ''no-undef'', severity = 2, fatal = None, line = None, column = Some 1,
      message = ''x is not defined.'', source = None\<rparr>"

definition columnFiveMessage :: message where
  "columnFiveMessage =
     \<lparr>ruleId = Some ''semi'', severity = 2, fatal = None, line = Some 1, column = Some 5,
      message = ''Missing semicolon.'', source = None\<rparr>"

definition noColumnMessage :: message where
  "noColumnMessage =
     \<lparr>ruleId = Some ''no-undef'', severity = 2, fatal = None, line = Some 1, column = None,
      message = ''x is not defined.'', source = None\<rparr>"

definition noLineResults :: "message fileResult list" where
  "noLineResults =
     [\<lparr>fileResult.filePath = ''a.js'', messages = Some [lineTwoMessage, noLineMessage]\<rparr>]"

definition noColumnResults :: "message fileResult list" where
  "noColumnResults =
     [\<lparr>fileResult.filePath = ''a.js'', messages = Some [columnFiveMessage, noColumnMessage]\<rparr>]"

definition sampleHeap :: heap where
  "sampleHeap = [objOf semiMessage, objOf unusedMessage]"

definition sampleRefs :: "nat fileResult list" where
  "sampleRefs =
     [\<lparr>fileResult.filePath = ''a.js'', messages = Some [0, 1]\<rparr>,
      \<lparr>fileResult.filePath = ''b.js'', messages = None\<rparr>]"

section \<open>Properties\<close>

subsection \<open>Sorting keeps the elements\<close>

lemma length_insertBy: "length (insertBy cmp x ys) = Suc (length ys)"
  by (induction ys) auto

lemma length_arraySort: "length (arraySort cmp xs) = length xs"
  by (induction xs) (auto simp: arraySort_def length_insertBy)

lemma arraySort_eq_Nil: "(arraySort cmp xs = []) = (xs = [])"
  using length_arraySort [of cmp xs] by (metis length_0_conv)

subsection \<open>Message text\<close>

text \<open>
  C7: the rendered message (third cell of the row) is the message text without one
  trailing period: a text that ends with a period loses exactly that period, any other
  text is unchanged, and periods inside the text stay.
\<close>

theorem C7_trailing_period:
  "rowOf ev e ! 2 =
     chalk ev (if isErrorMessage e then [Bold, Red] else [Bold, Yellow]) (stripPeriod (message e))
   \<and> stripPeriod (t @ ''.'') = t
   \<and> ((s = [] \<or> last s \<noteq> CHR ''.'') \<longrightarrow> stripPeriod s = s)
   \<and> stripPeriod ''Missing semicolon.'' = ''Missing semicolon''
   \<and> stripPeriod ''Line 1. Line 2.'' = ''Line 1. Line 2''"
  by (auto simp add: rowOf_def Let_def stripPeriod_def)

theorem C7_trailing_period_witness:
  "rowOf plainEnv (entryOf plainEnv noOptions (hd semiResults) semiMessage) ! 2 =
     ''Missing semicolon''
   \<and> stripPeriod ''Done..'' = ''Done.''
   \<and> stripPeriod ''a.b'' = ''a.b''"
proof -
  have h: "''a.b'' = [] \<or> last ''a.b'' \<noteq> CHR ''.''"
    by simp
  have e: "isErrorMessage (entryOf plainEnv noOptions (hd semiResults) semiMessage)"
    by (simp add: isErrorMessage_def entryOf_def semiMessage_def message.defs)
  have m: "message (entryOf plainEnv noOptions (hd semiResults) semiMessage) =
           ''Missing semicolon.''"
    by (simp add: entryOf_def semiMessage_def message.defs)
  show ?thesis
    using h e m
      C7_trailing_period [of plainEnv "entryOf plainEnv noOptions (hd semiResults) semiMessage"
        "''Done.''" "''a.b''"]
    by (simp add: plainEnv_def)
qed

subsection \<open>The summary line\<close>

lemma summaryLine_form:
  "summaryLine n e w =
     cross @ '' '' @ digits n @ '' problem'' @ (if n = 1 then [] else ''s'') @ '' ('' @
     digits e @ '' error'' @ (if e = 1 then [] else ''s'') @ '', '' @
     digits w @ '' warning'' @ (if w = 1 then [] else ''s'') @ '')'' @ nl"
  by (simp add: summaryLine_def pluralize_def)

text \<open>
  C8: a report that is not empty holds, after the main table, the styled summary line
  \<open>N problem(s) (E error(s), W warning(s))\<close> behind the cross glyph, where each of the
  three words gets its \<open>s\<close> exactly when its count is not 1: one problem with one error
  reads \<open>1 problem (1 error, 0 warnings)\<close>, two read \<open>2 problems\<close>, no error reads
  \<open>0 errors\<close>.
\<close>

theorem C8_summary_line:
  "flatten ev cfg rs \<noteq> [] \<Longrightarrow>
   (let a = foldl (step ev cfg) initAcc (arraySort (compareEntries ev cfg) (flatten ev cfg rs));
        n = length (flatten ev cfg rs)
    in formatter ev cfg (Some rs) =
       nl @ replaceMarker (table ev (rows a) [NoAlign, AlignL, AlignL, AlignL]
                             (\<lambda>str. length (stripColor ev str))) @ nl @ nl @
       chalk ev [summaryColor a, Bold]
         (cross @ '' '' @ digits n @ '' problem'' @ (if n = 1 then [] else ''s'') @ '' ('' @
          digits (errors a) @ '' error'' @ (if errors a = 1 then [] else ''s'') @ '', '' @
          digits (warnings a) @ '' warning'' @ (if warnings a = 1 then [] else ''s'') @
          '')'' @ nl) @
       (if errors a > 0 then printSummary ev (errorsHash a) ''Errors'' Red else []) @
       (if warnings a > 0 then printSummary ev (warningsHash a) ''Warnings'' Yellow else []) @
       separator)
   \<and> summaryLine 1 1 0 = cross @ '' 1 problem (1 error, 0 warnings)'' @ nl
   \<and> summaryLine 2 0 2 = cross @ '' 2 problems (0 errors, 2 warnings)'' @ nl"
proof -
  assume ne: "flatten ev cfg rs \<noteq> []"
  let ?a = "foldl (step ev cfg) initAcc (arraySort (compareEntries ev cfg) (flatten ev cfg rs))"
  let ?n = "length (flatten ev cfg rs)"
  have d0: "digits 0 = ''0''" and d1: "digits (Suc 0) = ''1''" and d2: "digits 2 = ''2''"
    by (simp_all add: digits.simps)
  have ex1: "summaryLine 1 1 0 = cross @ '' 1 problem (1 error, 0 warnings)'' @ nl"
    by (simp add: summaryLine_form d0 d1)
  have ex2: "summaryLine 2 0 2 = cross @ '' 2 problems (0 errors, 2 warnings)'' @ nl"
    by (simp add: summaryLine_form d0 d2)
  have main: "formatter ev cfg (Some rs) =
       nl @ replaceMarker (table ev (rows ?a) [NoAlign, AlignL, AlignL, AlignL]
                             (\<lambda>str. length (stripColor ev str))) @ nl @ nl @
       chalk ev [summaryColor ?a, Bold] (summaryLine ?n (errors ?a) (warnings ?a)) @
       (if errors ?a > 0 then printSummary ev (errorsHash ?a) ''Errors'' Red else []) @
       (if warnings ?a > 0 then printSummary ev (warningsHash ?a) ''Warnings'' Yellow else []) @
       separator"
    using ne by (simp add: formatter_def Let_def length_arraySort arraySort_eq_Nil)
  show ?thesis
    unfolding Let_def using main ex1 ex2 by (simp only: summaryLine_form simp_thms)
qed

theorem C8_summary_line_witness:
  "flatten plainEnv noOptions semiResults \<noteq> []
   \<and> formatter plainEnv noOptions (Some semiResults) =
       nl @ replaceMarker (table plainEnv
              [rowOf plainEnv (entryOf plainEnv noOptions (hd semiResults) semiMessage)]
              [NoAlign, AlignL, AlignL, AlignL] (\<lambda>str. length (stripColor plainEnv str))) @
       nl @ nl @ cross @ '' 1 problem (1 error, 0 warnings)'' @ nl @
       printSummary plainEnv [(''semi'', 1)] ''Errors'' Red @ separator"
proof -
  have fl: "flatten plainEnv noOptions semiResults =
            [entryOf plainEnv noOptions (hd semiResults) semiMessage]"
    by (simp add: flatten_def semiResults_def)
  have h: "flatten plainEnv noOptions semiResults \<noteq> []"
    by (simp add: fl)
  have err: "isErrorMessage (entryOf plainEnv noOptions (hd semiResults) semiMessage)"
    by (simp add: isErrorMessage_def entryOf_def semiMessage_def message.defs)
  have rid: "ruleId (entryOf plainEnv noOptions (hd semiResults) semiMessage) = Some ''semi''"
    by (simp add: entryOf_def semiMessage_def message.defs)
  have fo: "\<not> filteredOut noOptions x" for x
    by (simp add: filteredOut_def noOptions_def)
  have a: "foldl (step plainEnv noOptions) initAcc
             (arraySort (compareEntries plainEnv noOptions)
                [entryOf plainEnv noOptions (hd semiResults) semiMessage]) =
           \<lparr>rows = [rowOf plainEnv (entryOf plainEnv noOptions (hd semiResults) semiMessage)],
            errors = 1, warnings = 0, errorsHash = [(''semi'', 1)], warningsHash = [],
            summaryColor = Red\<rparr>"
    by (simp add: arraySort_def step_def fo err rid initAcc_def hashIncr_def)
  have d0: "digits 0 = ''0''" and d1: "digits (Suc 0) = ''1''"
    by (simp_all add: digits.simps)
  have ch: "chalk plainEnv [Red, Bold] = (\<lambda>s. s)"
    by (simp add: plainEnv_def)
  show ?thesis
    using h C8_summary_line [OF h]
    by (simp add: a fl Let_def d0 d1 ch)
qed

subsection \<open>A missing results argument\<close>

text \<open>
  C10: called with no results at all (\<^verbatim>\<open>null\<close> or \<^verbatim>\<open>undefined\<close>), the function
  takes the empty list in their place and returns the empty string.
\<close>

theorem C10_missing_results: "formatter ev cfg None = []"
  by (simp add: formatter_def flatten_def arraySort_def)

subsection \<open>The pointer line\<close>

lemma arrowLoop_None: "arrowLoop src None i arrow = arrow"
  by (simp add: arrowLoop.simps)

lemma arrowLoop_Some:
  "arrowLoop src (Some c) i arrow = arrow @ map (pointerChar src) [i..<c]"
proof (induction src "Some c :: nat option" i arrow rule: arrowLoop.induct)
  case (1 src i arrow)
  show ?case
  proof (cases "i < c")
    case True
    have step: "arrowLoop src (Some c) i arrow =
                arrowLoop src (Some c) (i + 1)
                  (if charAt src i = tab then arrow @ tab else arrow @ '' '')"
      using True by (subst arrowLoop.simps) simp
    have ch: "(if charAt src i = tab then arrow @ tab else arrow @ '' '') =
              arrow @ [pointerChar src i]"
      by (simp add: charAt_def tab_def pointerChar_def)
    have "arrowLoop src (Some c) (i + 1) (arrow @ [pointerChar src i]) =
          (arrow @ [pointerChar src i]) @ map (pointerChar src) [i + 1..<c]"
      using "1.hyps" [of ] True ch by simp
    then show ?thesis
      using True step ch by (simp add: upt_conv_Cons)
  next
    case False
    then show ?thesis
      by (subst arrowLoop.simps) simp
  qed
qed

lemma arrowOf_present:
  assumes "source e = Some src" "length src < 1000"
  shows "arrowOf e =
         map (pointerChar src) [0..<(case column e of None \<Rightarrow> 0 | Some c \<Rightarrow> c)] @ ''^''"
  using assms by (cases "column e") (simp_all add: arrowOf_def hasSource_def arrowLoop_None arrowLoop_Some)

text \<open>
  C5 (amended): when the source line is present and shorter than 1000 characters, the
  pointer is one character per index below the column (a tab where the source has a tab
  at that index, a space otherwise) followed by a caret, so before the caret it is as
  long as the column; the last cell of the row ends with the source line and the pointer.
  When the source is absent or has 1000 characters or more, there is no pointer and the
  cell ends after the location. For the source \<open>"  const x = 1"\<close> and column 8 the
  pointer is eight spaces and the caret.
\<close>

theorem C5_pointer:
  "(source e = Some src \<and> length src < 1000 \<longrightarrow>
      arrowOf e =
        map (\<lambda>i. if i < length src \<and> src ! i = CHR 0x09 then CHR 0x09 else CHR '' '')
          [0..<(case column e of None \<Rightarrow> 0 | Some c \<Rightarrow> c)] @ ''^''
      \<and> length (butlast (arrowOf e)) = (case column e of None \<Rightarrow> 0 | Some c \<Rightarrow> c)
      \<and> last (arrowOf e) = CHR ''^''
      \<and> rowOf ev e ! 3 =
          marker @ chalk ev [Bold] (filePath e) @ '' : '' @
          chalk ev [Bold, Green]
            (digits (case line e of None \<Rightarrow> 0 | Some l \<Rightarrow> l) @ '':'' @
             digits (case column e of None \<Rightarrow> 0 | Some c \<Rightarrow> c)) @
          marker @ src @ marker @ arrowOf e)
   \<and> ((source e = None \<or> (\<exists>s. source e = Some s \<and> 1000 \<le> length s)) \<longrightarrow>
      arrowOf e = []
      \<and> rowOf ev e ! 3 =
          marker @ chalk ev [Bold] (filePath e) @ '' : '' @
          chalk ev [Bold, Green]
            (digits (case line e of None \<Rightarrow> 0 | Some l \<Rightarrow> l) @ '':'' @
             digits (case column e of None \<Rightarrow> 0 | Some c \<Rightarrow> c)) @
          marker)"
proof (intro conjI impI)
  assume a: "source e = Some src \<and> length src < 1000"
  then have hs: "hasSource e" by (simp add: hasSource_def)
  have ao: "arrowOf e =
        map (pointerChar src) [0..<(case column e of None \<Rightarrow> 0 | Some c \<Rightarrow> c)] @ ''^''"
    using a by (simp add: arrowOf_present)
  have pc: "pointerChar src =
      (\<lambda>i. if i < length src \<and> src ! i = CHR 0x09 then CHR 0x09 else CHR '' '')"
    by (rule ext) (simp add: pointerChar_def)
  show "arrowOf e =
        map (\<lambda>i. if i < length src \<and> src ! i = CHR 0x09 then CHR 0x09 else CHR '' '')
          [0..<(case column e of None \<Rightarrow> 0 | Some c \<Rightarrow> c)] @ ''^''"
    using ao pc by simp
  show "length (butlast (arrowOf e)) = (case column e of None \<Rightarrow> 0 | Some c \<Rightarrow> c)"
    by (simp add: ao)
  show "last (arrowOf e) = CHR ''^''"
    by (simp add: ao)
  show "rowOf ev e ! 3 =
          marker @ chalk ev [Bold] (filePath e) @ '' : '' @
          chalk ev [Bold, Green]
            (digits (case line e of None \<Rightarrow> 0 | Some l \<Rightarrow> l) @ '':'' @
             digits (case column e of None \<Rightarrow> 0 | Some c \<Rightarrow> c)) @
          marker @ src @ marker @ arrowOf e"
    using a hs by (simp add: rowOf_def Let_def)
next
  assume b: "source e = None \<or> (\<exists>s. source e = Some s \<and> 1000 \<le> length s)"
  then have hs: "\<not> hasSource e" by (auto simp add: hasSource_def)
  show "arrowOf e = []"
    using hs by (simp add: arrowOf_def)
  show "rowOf ev e ! 3 =
          marker @ chalk ev [Bold] (filePath e) @ '' : '' @
          chalk ev [Bold, Green]
            (digits (case line e of None \<Rightarrow> 0 | Some l \<Rightarrow> l) @ '':'' @
             digits (case column e of None \<Rightarrow> 0 | Some c \<Rightarrow> c)) @
          marker"
    using hs by (simp add: rowOf_def Let_def)
qed

text \<open>
  C5 as stated gives seven spaces for column 8; the loop runs for the indices 0 to 7 and
  appends eight.
\<close>

lemma arrow_semi: "arrowOf semiMessage = ''        ^''"
  by (simp add: arrowOf_def hasSource_def semiMessage_def arrowLoop_Some pointerChar_def upt_rec [of _ "numeral _"] upt_rec [of _ "Suc _"])

theorem C5_pointer_counterexample:
  "source semiMessage = Some ''  const x = 1'' \<and> column semiMessage = Some 8
   \<and> arrowOf semiMessage = ''        ^''
   \<and> arrowOf semiMessage \<noteq> ''       ^''"
  by (simp add: arrow_semi) (simp add: semiMessage_def)

lemma chalk_plainEnv: "chalk plainEnv st s = s"
  by (simp add: plainEnv_def)

lemma digits_small:
  "digits 0 = ''0''" "digits (Suc 0) = ''1''" "digits 2 = ''2''" "digits 3 = ''3''"
  "digits 8 = ''8''"
  by (simp_all add: digits.simps)

theorem C5_pointer_witness:
  "source (entryOf plainEnv noOptions (hd semiResults) tabMessage) = Some (tab @ ''x = 1'')
   \<and> length (tab @ ''x = 1'') < 1000
   \<and> column (entryOf plainEnv noOptions (hd semiResults) tabMessage) = Some 3
   \<and> arrowOf (entryOf plainEnv noOptions (hd semiResults) tabMessage) = tab @ ''  ^''
   \<and> source (entryOf plainEnv noOptions (hd semiResults) unusedMessage) = None
   \<and> arrowOf (entryOf plainEnv noOptions (hd semiResults) unusedMessage) = []
   \<and> rowOf plainEnv (entryOf plainEnv noOptions (hd semiResults) unusedMessage) ! 3 =
       marker @ ''a.js : 1:8'' @ marker"
proof -
  let ?t = "entryOf plainEnv noOptions (hd semiResults) tabMessage"
  let ?u = "entryOf plainEnv noOptions (hd semiResults) unusedMessage"
  have s1: "source ?t = Some (tab @ ''x = 1'')" and c1: "column ?t = Some 3"
    by (simp_all add: entryOf_def tabMessage_def message.defs)
  have l1: "length (tab @ ''x = 1'') < 1000"
    by (simp add: tab_def)
  have s2: "source ?u = None" and c2: "column ?u = Some 8" and l2: "line ?u = Some 1"
    and f2: "filePath ?u = ''a.js''"
    by (simp_all add: entryOf_def unusedMessage_def message.defs entry.defs semiResults_def
        noOptions_def)
  have up: "[0..<3] = [0, 1, 2]"
    by (simp add: upt_rec [of _ "numeral _"] upt_rec [of _ "Suc _"])
  from C5_pointer [of ?t "tab @ ''x = 1''" plainEnv] s1 l1 c1
  have a1: "arrowOf ?t = tab @ ''  ^''"
    by (simp add: up tab_def)
  from C5_pointer [of ?u "[]" plainEnv] s2 c2 l2 f2
  have a2: "arrowOf ?u = []" and r2: "rowOf plainEnv ?u ! 3 = marker @ ''a.js : 1:8'' @ marker"
    by (simp_all add: digits_small chalk_plainEnv)
  show ?thesis
    using s1 l1 c1 a1 s2 a2 r2 by simp
qed

subsection \<open>The rows and the counters\<close>

lemma step_filteredOut: "filteredOut cfg e \<Longrightarrow> step ev cfg a e = a"
  by (simp add: step_def)

lemma rows_step:
  "rows (step ev cfg a e) = rows a @ (if filteredOut cfg e then [] else [rowOf ev e])"
  by (simp add: step_def)

lemma errors_step:
  "errors (step ev cfg a e) =
     errors a + (if \<not> filteredOut cfg e \<and> isErrorMessage e then 1 else 0)"
  by (simp add: step_def)

lemma warnings_step:
  "warnings (step ev cfg a e) =
     warnings a + (if \<not> filteredOut cfg e \<and> \<not> isErrorMessage e then 1 else 0)"
  by (simp add: step_def)

lemma rows_foldl_step:
  "rows (foldl (step ev cfg) a es) =
     rows a @ map (rowOf ev) (filter (\<lambda>e. \<not> filteredOut cfg e) es)"
  by (induction es arbitrary: a) (simp_all add: rows_step)

lemma errors_foldl_step:
  "errors (foldl (step ev cfg) a es) =
     errors a + length (filter (\<lambda>e. \<not> filteredOut cfg e \<and> isErrorMessage e) es)"
  by (induction es arbitrary: a) (simp_all add: errors_step)

lemma warnings_foldl_step:
  "warnings (foldl (step ev cfg) a es) =
     warnings a + length (filter (\<lambda>e. \<not> filteredOut cfg e \<and> \<not> isErrorMessage e) es)"
  by (induction es arbitrary: a) (simp_all add: warnings_step)

lemma length_filter_split:
  "length (filter (\<lambda>e. P e \<and> Q e) es) + length (filter (\<lambda>e. P e \<and> \<not> Q e) es) =
   length (filter P es)"
  by (induction es) auto

lemma counters_sum_rows:
  "errors (foldl (step ev cfg) initAcc es) + warnings (foldl (step ev cfg) initAcc es) =
   length (rows (foldl (step ev cfg) initAcc es))"
  by (simp add: errors_foldl_step warnings_foldl_step rows_foldl_step initAcc_def
      length_filter_split)

lemma rows_count_survivors:
  "length (rows (foldl (step ev cfg) initAcc es)) =
   length (filter (\<lambda>e. \<not> filteredOut cfg e) es)"
  by (simp add: rows_foldl_step initAcc_def)

lemma flatten_no_messages:
  "\<forall>r \<in> set rs. messages r = None \<or> messages r = Some [] \<Longrightarrow> flatten ev cfg rs = []"
proof -
  have "\<forall>r \<in> set rs. messages r = None \<or> messages r = Some [] \<Longrightarrow>
        foldl (\<lambda>entries result.
              let msgs = (case messages result of None \<Rightarrow> [] | Some ms \<Rightarrow> ms)
              in entries @ map (entryOf ev cfg result) msgs) acc rs = acc" for acc
    by (induction rs arbitrary: acc) auto
  then show "\<forall>r \<in> set rs. messages r = None \<or> messages r = Some [] \<Longrightarrow> flatten ev cfg rs = []"
    by (simp add: flatten_def)
qed

lemma formatter_no_messages:
  "\<forall>r \<in> set rs. messages r = None \<or> messages r = Some [] \<Longrightarrow>
   formatter ev cfg (Some rs) = []"
  by (simp add: formatter_def flatten_no_messages arraySort_def)

lemma arraySort_single: "arraySort cmp [x] = [x]"
  by (simp add: arraySort_def)

lemma ruleId_entryOf: "ruleId (entryOf ev cfg r m) = ruleId m"
  and severity_entryOf: "severity (entryOf ev cfg r m) = severity m"
  and fatal_entryOf: "fatal (entryOf ev cfg r m) = fatal m"
  and line_entryOf: "line (entryOf ev cfg r m) = line m"
  and column_entryOf: "column (entryOf ev cfg r m) = column m"
  and message_entryOf: "message (entryOf ev cfg r m) = message m"
  and source_entryOf: "source (entryOf ev cfg r m) = source m"
  by (simp_all add: entryOf_def message.defs)

lemma isErrorMessage_entryOf: "isErrorMessage (entryOf ev cfg r m) = isErrorMessage m"
  by (simp add: isErrorMessage_def severity_entryOf fatal_entryOf)

text \<open>
  C1: with the filter \<open>no-unused-vars\<close> and one diagnostic of the rule \<open>semi\<close>, the
  filter removes every diagnostic; the function returns a main table without rows and the
  summary line \<open>1 problem (0 errors, 0 warnings)\<close>, not the empty string.
\<close>

theorem C1_filter_removes_all:
  "formatter ev unusedFilter (Some semiResults) =
     nl @ replaceMarker (table ev [] [NoAlign, AlignL, AlignL, AlignL]
                           (\<lambda>str. length (stripColor ev str))) @ nl @ nl @
     chalk ev [Yellow, Bold] (cross @ '' 1 problem (0 errors, 0 warnings)'' @ nl) @ separator
   \<and> formatter ev unusedFilter (Some semiResults) \<noteq> []"
proof -
  let ?e = "entryOf ev unusedFilter (hd semiResults) semiMessage"
  have fl: "flatten ev unusedFilter semiResults = [?e]"
    by (simp add: flatten_def semiResults_def)
  have fo: "filteredOut unusedFilter ?e"
    by (simp add: filteredOut_def unusedFilter_def ruleId_entryOf semiMessage_def)
  have a: "step ev unusedFilter initAcc ?e = initAcc"
    by (simp add: step_filteredOut fo)
  have eq: "formatter ev unusedFilter (Some semiResults) =
     nl @ replaceMarker (table ev [] [NoAlign, AlignL, AlignL, AlignL]
                           (\<lambda>str. length (stripColor ev str))) @ nl @ nl @
     chalk ev [Yellow, Bold] (cross @ '' 1 problem (0 errors, 0 warnings)'' @ nl) @ separator"
    by (simp add: formatter_def Let_def fl arraySort_single a summaryLine_form digits_small)
       (simp add: initAcc_def digits_small)
  moreover have "nl \<noteq> []" by (simp add: nl_def)
  ultimately show ?thesis by simp
qed

lemma digits_two: "digits (Suc (Suc 0)) = ''2''"
  by (simp add: digits.simps)

text \<open>
  C2: with the filter \<open>semi\<close> and two diagnostics of which one has that rule, the main
  table has one row and the counters add up to one, but the summary line reports
  \<open>2 problems\<close>: \<^verbatim>\<open>total\<close> is the length of the sorted list, which the filter does
  not shorten.
\<close>

theorem C2_total_ignores_filter:
  "formatter ev semiFilter (Some mixedResults) =
     nl @ replaceMarker
            (table ev [rowOf ev (entryOf ev semiFilter (hd mixedResults) semiMessage)]
               [NoAlign, AlignL, AlignL, AlignL] (\<lambda>str. length (stripColor ev str))) @
     nl @ nl @
     chalk ev [Red, Bold] (cross @ '' 2 problems (1 error, 0 warnings)'' @ nl) @
     printSummary ev [(''semi'', 1)] ''Errors'' Red @ separator"
proof -
  let ?u = "entryOf ev semiFilter (hd mixedResults) unusedMessage"
  let ?s = "entryOf ev semiFilter (hd mixedResults) semiMessage"
  have fl: "flatten ev semiFilter mixedResults = [?u, ?s]"
    by (simp add: flatten_def mixedResults_def)
  have cmp: "compareEntries ev semiFilter ?u ?s = - 1"
    by (simp add: compareEntries_def severity_entryOf unusedMessage_def semiMessage_def)
  have srt: "arraySort (compareEntries ev semiFilter) [?u, ?s] = [?u, ?s]"
    by (simp add: arraySort_def cmp)
  have fu: "filteredOut semiFilter ?u"
    by (simp add: filteredOut_def semiFilter_def ruleId_entryOf unusedMessage_def)
  have fs: "\<not> filteredOut semiFilter ?s"
    by (simp add: filteredOut_def semiFilter_def ruleId_entryOf semiMessage_def)
  have es: "isErrorMessage ?s"
    by (simp add: isErrorMessage_entryOf) (simp add: isErrorMessage_def semiMessage_def)
  have rs: "ruleId ?s = Some ''semi''"
    by (simp add: ruleId_entryOf semiMessage_def)
  have a: "step ev semiFilter (step ev semiFilter initAcc ?u) ?s =
           \<lparr>rows = [rowOf ev ?s], errors = 1, warnings = 0, errorsHash = [(''semi'', 1)],
            warningsHash = [], summaryColor = Red\<rparr>"
    by (simp add: step_filteredOut fu) (simp add: step_def fs es rs initAcc_def hashIncr_def)
  show ?thesis
    by (simp add: formatter_def Let_def fl srt a summaryLine_form digits_small digits_two)
qed

lemma hashGet_hashSet: "hashGet (hashSet h k v) k' = (if k' = k then Some v else hashGet h k')"
  by (induction h k v rule: hashSet.induct) auto

lemma hashCount_hashIncr:
  "hashCount (hashIncr h rid) k =
     (if k = propertyKey rid then hashCount h k + 1 else hashCount h k)"
  by (simp add: hashCount_def hashIncr_def Let_def hashGet_hashSet)

lemma tally_step_error:
  assumes "\<not> filteredOut cfg e" "isErrorMessage e"
  shows "hashCount (errorsHash (step ev cfg a e)) k =
           hashCount (errorsHash a) k + (if k = propertyKey (ruleId e) then 1 else 0)"
    and "warningsHash (step ev cfg a e) = warningsHash a"
    and "errors (step ev cfg a e) = errors a + 1"
    and "warnings (step ev cfg a e) = warnings a"
  using assms by (simp_all add: step_def hashCount_hashIncr)

lemma tally_step_warning:
  assumes "\<not> filteredOut cfg e" "\<not> isErrorMessage e"
  shows "hashCount (warningsHash (step ev cfg a e)) k =
           hashCount (warningsHash a) k + (if k = propertyKey (ruleId e) then 1 else 0)"
    and "errorsHash (step ev cfg a e) = errorsHash a"
    and "warnings (step ev cfg a e) = warnings a + 1"
    and "errors (step ev cfg a e) = errors a"
  using assms by (simp_all add: step_def hashCount_hashIncr)

text \<open>
  C6: a fatal diagnostic without \<open>ruleId\<close> is an error and increments the error counter,
  but its tally is written under the property key \<^verbatim>\<open>"undefined"\<close>; the empty string,
  which labels its row, has no tally.
\<close>

theorem C6_absent_ruleId_tally_key:
  "step ev noOptions initAcc (entryOf ev noOptions (hd semiResults) parseErrorMessage) =
     \<lparr>rows = [rowOf ev (entryOf ev noOptions (hd semiResults) parseErrorMessage)],
      errors = 1, warnings = 0, errorsHash = [(''undefined'', 1)], warningsHash = [],
      summaryColor = Red\<rparr>
   \<and> hashCount [(''undefined'', 1)] [] = 0
   \<and> rowOf ev (entryOf ev noOptions (hd semiResults) parseErrorMessage) ! 1 =
       chalk ev [Red] cross @ ''  '' @ getKeyLink ev [] True"
proof -
  let ?p = "entryOf ev noOptions (hd semiResults) parseErrorMessage"
  have fo: "\<not> filteredOut noOptions ?p"
    by (simp add: filteredOut_def noOptions_def)
  have ep: "isErrorMessage ?p"
    by (simp add: isErrorMessage_entryOf) (simp add: isErrorMessage_def parseErrorMessage_def)
  have rp: "ruleId ?p = None"
    by (simp add: ruleId_entryOf parseErrorMessage_def)
  have a: "step ev noOptions initAcc ?p =
     \<lparr>rows = [rowOf ev ?p], errors = 1, warnings = 0, errorsHash = [(''undefined'', 1)],
      warningsHash = [], summaryColor = Red\<rparr>"
    by (simp add: step_def fo ep rp initAcc_def hashIncr_def)
  have h: "hashCount [(''undefined'', 1)] [] = 0"
    by (simp add: hashCount_def)
  have r: "rowOf ev ?p ! 1 = chalk ev [Red] cross @ ''  '' @ getKeyLink ev [] True"
    by (simp add: rowOf_def Let_def ep rp)
  show ?thesis
    using a h r by simp
qed

subsection \<open>The filter\<close>

lemma filteredOut_Some:
  "filterRule cfg = Some f \<Longrightarrow> f \<noteq> [] \<Longrightarrow> filteredOut cfg e = (ruleId e \<noteq> Some f)"
  by (simp add: filteredOut_def)

lemma step_filter_None:
  "\<not> filteredOut cfg e \<Longrightarrow> step ev cfg a e = step ev (cfg\<lparr>filterRule := None\<rparr>) a e"
  by (simp add: step_def filteredOut_def)

lemma foldl_step_filter:
  assumes "filterRule cfg = Some f" "f \<noteq> []"
  shows "foldl (step ev cfg) a es =
         foldl (step ev (cfg\<lparr>filterRule := None\<rparr>)) a (filter (\<lambda>e. ruleId e = Some f) es)"
proof (induction es arbitrary: a)
  case Nil
  show ?case by simp
next
  case (Cons e es)
  show ?case
  proof (cases "ruleId e = Some f")
    case True
    then have "\<not> filteredOut cfg e"
      using assms by (simp add: filteredOut_Some)
    then show ?thesis
      using True Cons.IH by (simp add: step_filter_None)
  next
    case False
    then have "filteredOut cfg e"
      using assms by (simp add: filteredOut_Some)
    then show ?thesis
      using False Cons.IH by (simp add: step_filteredOut)
  qed
qed

text \<open>
  C3 (amended): when the filter is set to a string that is not empty, the rows, the two
  counters, the two tallies and the summary colour are those of a run without filter over
  exactly the diagnostics whose \<open>ruleId\<close> is that string; a diagnostic is filtered out
  if and only if its \<open>ruleId\<close> differs from the filter, so one without \<open>ruleId\<close> always
  is; and a diagnostic that is filtered out changes none of the variables from which the
  table, the summary line and the summary tables are made.
\<close>

theorem C3_filter:
  "filterRule cfg = Some f \<Longrightarrow> f \<noteq> [] \<Longrightarrow>
     foldl (step ev cfg) a es =
       foldl (step ev (cfg\<lparr>filterRule := None\<rparr>)) a (filter (\<lambda>e. ruleId e = Some f) es)
     \<and> filteredOut cfg e = (ruleId e \<noteq> Some f)
     \<and> (ruleId e = None \<longrightarrow> filteredOut cfg e)
     \<and> (filteredOut cfg e \<longrightarrow> step ev cfg a e = a)"
proof -
  assume s: "filterRule cfg = Some f" and n: "f \<noteq> []"
  have 1: "foldl (step ev cfg) a es =
       foldl (step ev (cfg\<lparr>filterRule := None\<rparr>)) a (filter (\<lambda>e. ruleId e = Some f) es)"
    using s n by (rule foldl_step_filter)
  have 2: "filteredOut cfg e = (ruleId e \<noteq> Some f)"
    using s n by (rule filteredOut_Some)
  have 3: "ruleId e = None \<longrightarrow> filteredOut cfg e"
    using 2 by simp
  have 4: "filteredOut cfg e \<longrightarrow> step ev cfg a e = a"
    by (simp add: step_filteredOut)
  show ?thesis
    using 1 2 3 4 by blast
qed

theorem C3_filter_witness:
  "filterRule unusedFilter = Some ''no-unused-vars'' \<and> ''no-unused-vars'' \<noteq> []
   \<and> foldl (step plainEnv unusedFilter) initAcc
        [entryOf plainEnv unusedFilter (hd mixedResults) unusedMessage,
         entryOf plainEnv unusedFilter (hd mixedResults) semiMessage,
         entryOf plainEnv unusedFilter (hd mixedResults) parseErrorMessage] =
       \<lparr>rows = [rowOf plainEnv (entryOf plainEnv unusedFilter (hd mixedResults) unusedMessage)],
        errors = 0, warnings = 1, errorsHash = [],
        warningsHash = [(''no-unused-vars'', 1)], summaryColor = Yellow\<rparr>
   \<and> filteredOut unusedFilter (entryOf plainEnv unusedFilter (hd mixedResults) parseErrorMessage)
   \<and> step plainEnv unusedFilter initAcc
         (entryOf plainEnv unusedFilter (hd mixedResults) parseErrorMessage) = initAcc"
proof -
  let ?u = "entryOf plainEnv unusedFilter (hd mixedResults) unusedMessage"
  let ?s = "entryOf plainEnv unusedFilter (hd mixedResults) semiMessage"
  let ?p = "entryOf plainEnv unusedFilter (hd mixedResults) parseErrorMessage"
  have h1: "filterRule unusedFilter = Some ''no-unused-vars''"
    by (simp add: unusedFilter_def)
  have h2: "''no-unused-vars'' \<noteq> []"
    by simp
  have ru: "ruleId ?u = Some ''no-unused-vars''" and rs: "ruleId ?s = Some ''semi''"
    and rp: "ruleId ?p = None"
    by (simp_all add: ruleId_entryOf unusedMessage_def semiMessage_def parseErrorMessage_def)
  have wu: "\<not> isErrorMessage ?u"
    by (simp add: isErrorMessage_entryOf) (simp add: isErrorMessage_def unusedMessage_def)
  have st: "step plainEnv (unusedFilter\<lparr>filterRule := None\<rparr>) initAcc ?u =
            \<lparr>rows = [rowOf plainEnv ?u], errors = 0, warnings = 1, errorsHash = [],
             warningsHash = [(''no-unused-vars'', 1)], summaryColor = Yellow\<rparr>"
    by (simp add: step_def filteredOut_def wu ru initAcc_def hashIncr_def)
  from C3_filter [OF h1 h2, of plainEnv initAcc "[?u, ?s, ?p]" ?p]
  show ?thesis
    using h1 ru rs rp st by simp
qed

text \<open>
  C3 as stated fails for the filter set to the empty string: the test
  \<^verbatim>\<open>if (filterRule)\<close> is false for it, and a diagnostic of the rule \<open>semi\<close>
  survives.
\<close>

theorem C3_filter_counterexample:
  "filterRule emptyFilter = Some []
   \<and> ruleId (entryOf plainEnv emptyFilter (hd semiResults) semiMessage) \<noteq> Some []
   \<and> \<not> filteredOut emptyFilter (entryOf plainEnv emptyFilter (hd semiResults) semiMessage)
   \<and> rows (foldl (step plainEnv emptyFilter) initAcc
              [entryOf plainEnv emptyFilter (hd semiResults) semiMessage]) =
       [rowOf plainEnv (entryOf plainEnv emptyFilter (hd semiResults) semiMessage)]"
proof -
  let ?s = "entryOf plainEnv emptyFilter (hd semiResults) semiMessage"
  have f: "filterRule emptyFilter = Some []"
    by (simp add: emptyFilter_def)
  have r: "ruleId ?s \<noteq> Some []"
    by (simp add: ruleId_entryOf semiMessage_def)
  have nf: "\<not> filteredOut emptyFilter ?s"
    by (simp add: filteredOut_def f)
  have rw: "rows (step plainEnv emptyFilter initAcc ?s) = [rowOf plainEnv ?s]"
    by (simp add: rows_step nf initAcc_def)
  show ?thesis
    using f r nf rw by simp
qed

subsection \<open>Consistent comparators\<close>

lemma consistent_sym: "consistent c \<Longrightarrow> (c x y < 0) = (0 < c y x)"
  by (simp add: consistent_def)

lemma consistent_trans: "consistent c \<Longrightarrow> c x y \<le> 0 \<Longrightarrow> c y z \<le> 0 \<Longrightarrow> c x z \<le> 0"
  unfolding consistent_def by blast

lemma consistent_zero_sym:
  assumes "consistent c"
  shows "(c x y = 0) = (c y x = 0)"
  using consistent_sym [OF assms, of x y] consistent_sym [OF assms, of y x] by arith

lemma consistent_neg_trans:
  assumes "consistent c" "c z x < 0"
  shows "c y x < 0 \<or> c z y < 0"
proof (rule ccontr)
  assume "\<not> (c y x < 0 \<or> c z y < 0)"
  then have "0 \<le> c y x" "0 \<le> c z y" by simp_all
  then have "c x y \<le> 0" "c y z \<le> 0"
    using consistent_sym [OF assms(1), of y x] consistent_sym [OF assms(1), of z y] by arith+
  then have "c x z \<le> 0" using assms(1) by (rule consistent_trans [rotated])
  then show False using assms(2) consistent_sym [OF assms(1), of z x] by arith
qed

lemma consistent_zero_neg:
  assumes "consistent c" "c x y = 0" "c y z < 0"
  shows "c x z < 0"
proof -
  have "c x z < 0 \<or> c y x < 0"
    using consistent_neg_trans [OF assms(1,3), of x] by blast
  moreover have "c y x = 0"
    using assms(2) consistent_zero_sym [OF assms(1), of x y] by simp
  ultimately show ?thesis by simp
qed

lemma consistent_neg_zero:
  assumes "consistent c" "c x y < 0" "c y z = 0"
  shows "c x z < 0"
proof -
  have "c z y < 0 \<or> c x z < 0"
    using consistent_neg_trans [OF assms(1,2), of z] by blast
  moreover have "c z y = 0"
    using assms(3) consistent_zero_sym [OF assms(1), of y z] by simp
  ultimately show ?thesis by simp
qed

lemma consistent_zero_trans:
  assumes "consistent c" "c x y = 0" "c y z = 0"
  shows "c x z = 0"
proof -
  have "c x y \<le> 0" "c y z \<le> 0" using assms by simp_all
  then have 1: "c x z \<le> 0" using assms(1) by (rule consistent_trans [rotated])
  have "c z y = 0" "c y x = 0"
    using assms consistent_zero_sym [OF assms(1)] by simp_all
  then have "c z y \<le> 0" "c y x \<le> 0" by simp_all
  then have 2: "c z x \<le> 0" using assms(1) by (rule consistent_trans [rotated])
  show ?thesis
    using 1 2 consistent_sym [OF assms(1), of x z] consistent_sym [OF assms(1), of z x]
    by arith
qed

lemma consistent_neg_neg:
  assumes "consistent c" "c x y < 0" "c y z < 0"
  shows "c x z < 0"
  using consistent_neg_trans [OF assms(1,2), of z] consistent_sym [OF assms(1), of y z]
    consistent_sym [OF assms(1), of z y] assms(3)
  by arith

lemma consistent_le_iff: "consistent c \<Longrightarrow> (c x y \<le> 0) = (c x y < 0 \<or> c x y = 0)"
  by auto

lemma threeWay_sign:
  "(threeWay x y < 0) = (x < y)" "(threeWay x y = 0) = (x = y)" "(0 < threeWay x y) = (y < x)"
  by (auto simp add: threeWay_def)

lemma lexCmp_sign:
  "(lexCmp x y < 0) = (x < 0 \<or> (x = 0 \<and> y < 0))"
  "(lexCmp x y = 0) = (x = 0 \<and> y = 0)"
  "(0 < lexCmp x y) = (0 < x \<or> (x = 0 \<and> 0 < y))"
  by (auto simp add: lexCmp_def)

lemma consistent_threeWay: "consistent (\<lambda>a b. threeWay (f a) (f b))"
  unfolding consistent_def
proof (intro conjI allI impI)
  fix x y show "(threeWay (f x) (f y) < 0) = (0 < threeWay (f y) (f x))"
    by (simp add: threeWay_sign)
next
  fix x y z
  assume "threeWay (f x) (f y) \<le> 0" "threeWay (f y) (f z) \<le> 0"
  then have "f x \<le> f y" "f y \<le> f z"
    by (simp_all add: threeWay_def split: if_splits)
  then have "f x \<le> f z" by (rule order_trans)
  then show "threeWay (f x) (f z) \<le> 0"
    by (auto simp add: threeWay_def)
qed

lemma consistent_const: "consistent (\<lambda>a b. 0)"
  by (simp add: consistent_def)

lemma consistent_pullback: "consistent c \<Longrightarrow> consistent (\<lambda>a b. c (f a) (f b))"
  unfolding consistent_def by blast

lemma consistent_lexCmp:
  assumes c1: "consistent c1" and c2: "consistent c2"
  shows "consistent (\<lambda>a b. lexCmp (c1 a b) (c2 a b))"
  unfolding consistent_def
proof (intro conjI allI impI)
  fix x y
  show "(lexCmp (c1 x y) (c2 x y) < 0) = (0 < lexCmp (c1 y x) (c2 y x))"
    using consistent_sym [OF c1, of x y] consistent_sym [OF c2, of x y]
      consistent_zero_sym [OF c1, of x y]
    by (simp add: lexCmp_sign)
next
  fix x y z
  assume xy: "lexCmp (c1 x y) (c2 x y) \<le> 0" and yz: "lexCmp (c1 y z) (c2 y z) \<le> 0"
  from xy have xy': "c1 x y < 0 \<or> (c1 x y = 0 \<and> c2 x y \<le> 0)"
    by (auto simp add: lexCmp_def split: if_splits)
  from yz have yz': "c1 y z < 0 \<or> (c1 y z = 0 \<and> c2 y z \<le> 0)"
    by (auto simp add: lexCmp_def split: if_splits)
  have "c1 x z < 0 \<or> (c1 x z = 0 \<and> c2 x z \<le> 0)"
  proof (cases "c1 x y < 0")
    case True
    show ?thesis
    proof (cases "c1 y z < 0")
      case True
      with \<open>c1 x y < 0\<close> show ?thesis using consistent_neg_neg [OF c1] by blast
    next
      case False
      with yz' have "c1 y z = 0" by simp
      with True show ?thesis using consistent_neg_zero [OF c1] by blast
    qed
  next
    case False
    with xy' have e: "c1 x y = 0" and l: "c2 x y \<le> 0" by simp_all
    show ?thesis
    proof (cases "c1 y z < 0")
      case True
      with e show ?thesis using consistent_zero_neg [OF c1] by blast
    next
      case False
      with yz' have e': "c1 y z = 0" and l': "c2 y z \<le> 0" by simp_all
      from e e' have "c1 x z = 0" using consistent_zero_trans [OF c1] by blast
      moreover from l l' have "c2 x z \<le> 0" using consistent_trans [OF c2] by blast
      ultimately show ?thesis by simp
    qed
  qed
  then show "lexCmp (c1 x z) (c2 x z) \<le> 0"
    by (auto simp add: lexCmp_def)
qed

lemma consistent_keyCompare:
  assumes "consistent (localeCompare ev)"
  shows "consistent (keyCompare ev cfg)"
proof -
  have g: "consistent (\<lambda>a b :: entry. if groupByIssue cfg then threeWay (ruleKey a) (ruleKey b) else 0)"
    using consistent_threeWay [of ruleKey] consistent_const by (cases "groupByIssue cfg") simp_all
  have p: "consistent (\<lambda>a b :: entry. localeCompare ev (filePath a) (filePath b))"
    using assms by (rule consistent_pullback)
  have "consistent (\<lambda>a b :: entry.
     lexCmp (threeWay (severity a) (severity b))
       (lexCmp (if groupByIssue cfg then threeWay (ruleKey a) (ruleKey b) else 0)
          (lexCmp (localeCompare ev (filePath a) (filePath b))
             (lexCmp (threeWay (the (line a)) (the (line b)))
                (threeWay (the (column a)) (the (column b)))))))"
    by (intro consistent_lexCmp consistent_threeWay g p)
  then show ?thesis
    unfolding keyCompare_def [abs_def] .
qed

subsection \<open>The comparator of the entries\<close>

lemma jsGreater_Some: "jsGreater (Some x) (Some y) = (y < x)"
  by simp

lemma compareEntries_keyed:
  assumes a: "wellKeyed cfg a" and b: "wellKeyed cfg b"
  shows "compareEntries ev cfg a b = keyCompare ev cfg a b"
proof -
  from a obtain la ca where la: "line a = Some la" and ca: "column a = Some ca"
    by (auto simp add: wellKeyed_def)
  from b obtain lb cb where lb: "line b = Some lb" and cb: "column b = Some cb"
    by (auto simp add: wellKeyed_def)
  have tail: "(let pathSort = localeCompare ev (filePath a) (filePath b)
           in if pathSort \<noteq> 0 then pathSort
              else if jsGreater (line a) (line b) then 1
              else if jsLess (line a) (line b) then - 1
              else if jsGreater (column a) (column b) then 1
              else if jsLess (column a) (column b) then - 1
              else 0) =
        lexCmp (localeCompare ev (filePath a) (filePath b))
             (lexCmp (threeWay (the (line a)) (the (line b)))
                (threeWay (the (column a)) (the (column b))))" (is "?t = ?k")
    by (simp add: la ca lb cb lexCmp_def threeWay_def Let_def)
  show ?thesis
  proof (cases "groupByIssue cfg")
    case False
    then show ?thesis
      unfolding compareEntries_def keyCompare_def tail
      by (simp add: lexCmp_def threeWay_def)
  next
    case True
    with a b obtain ra rb where ra: "ruleId a = Some ra" and rb: "ruleId b = Some rb"
      by (auto simp add: wellKeyed_def)
    from True show ?thesis
      unfolding compareEntries_def keyCompare_def tail
      by (simp add: lexCmp_def threeWay_def ruleKey_def ra rb)
  qed
qed

lemma keyCompare_neg: "(keyCompare ev cfg a b < 0) = specBefore ev cfg a b"
  unfolding keyCompare_def specBefore_def
  by (cases "groupByIssue cfg") (simp_all add: lexCmp_sign threeWay_sign)

lemma keyCompare_zero: "(keyCompare ev cfg a b = 0) = sameKeys ev cfg a b"
  unfolding keyCompare_def sameKeys_def
  by (cases "groupByIssue cfg") (simp_all add: lexCmp_sign threeWay_sign)

lemma keyCompare_le:
  "(keyCompare ev cfg a b \<le> 0) = (specBefore ev cfg a b \<or> sameKeys ev cfg a b)"
  using keyCompare_neg [of ev cfg a b] keyCompare_zero [of ev cfg a b] by arith

subsection \<open>Insertion sort with a consistent comparator\<close>

lemma set_insertBy: "set (insertBy cmp x ys) = insert x (set ys)"
  by (induction ys) auto

lemma mset_insertBy: "mset (insertBy cmp x ys) = add_mset x (mset ys)"
  by (induction ys) auto

lemma mset_arraySort: "mset (arraySort cmp xs) = mset xs"
  by (induction xs) (simp_all add: arraySort_def mset_insertBy)

lemma set_arraySort: "set (arraySort cmp xs) = set xs"
  using mset_arraySort [of cmp xs] by (metis set_mset_mset)

lemma sorted_insertBy:
  assumes c: "consistent cmp" and s: "sorted_wrt (\<lambda>a b. cmp a b \<le> 0) ys"
  shows "sorted_wrt (\<lambda>a b. cmp a b \<le> 0) (insertBy cmp x ys)"
  using s
proof (induction ys)
  case Nil
  show ?case by simp
next
  case (Cons y ys)
  show ?case
  proof (cases "cmp x y \<le> 0")
    case True
    have "cmp x z \<le> 0" if "z \<in> set ys" for z
    proof -
      from Cons.prems that have "cmp y z \<le> 0" by simp
      with True show ?thesis using consistent_trans [OF c] by blast
    qed
    with True Cons.prems show ?thesis by simp
  next
    case False
    then have "cmp y x \<le> 0"
      using consistent_sym [OF c, of y x] by arith
    with False Cons show ?thesis
      by (simp add: set_insertBy)
  qed
qed

lemma sorted_arraySort:
  "consistent cmp \<Longrightarrow> sorted_wrt (\<lambda>a b. cmp a b \<le> 0) (arraySort cmp xs)"
  by (induction xs) (simp_all add: arraySort_def sorted_insertBy)

lemma filter_insertBy:
  assumes c: "consistent cmp"
  shows "filter (\<lambda>y. cmp k y = 0) (insertBy cmp x ys) =
         (if cmp k x = 0 then x # filter (\<lambda>y. cmp k y = 0) ys
          else filter (\<lambda>y. cmp k y = 0) ys)"
proof (induction ys)
  case Nil
  show ?case by simp
next
  case (Cons y ys)
  show ?case
  proof (cases "cmp x y \<le> 0")
    case True
    then show ?thesis by simp
  next
    case False
    have "\<not> (cmp k x = 0 \<and> cmp k y = 0)"
    proof
      assume h: "cmp k x = 0 \<and> cmp k y = 0"
      then have "cmp x k = 0" using consistent_zero_sym [OF c, of k x] by simp
      with h have "cmp x y = 0" using consistent_zero_trans [OF c] by blast
      with False show False by simp
    qed
    with False Cons.IH show ?thesis by auto
  qed
qed

lemma stable_arraySort:
  "consistent cmp \<Longrightarrow>
   filter (\<lambda>y. cmp k y = 0) (arraySort cmp xs) = filter (\<lambda>y. cmp k y = 0) xs"
  by (induction xs) (simp_all add: arraySort_def filter_insertBy)

lemma insertBy_cong:
  "\<forall>y \<in> set ys. cmp x y = cmp' x y \<Longrightarrow> insertBy cmp x ys = insertBy cmp' x ys"
  by (induction ys) auto

lemma arraySort_cong:
  "\<forall>a \<in> set xs. \<forall>b \<in> set xs. cmp a b = cmp' a b \<Longrightarrow> arraySort cmp xs = arraySort cmp' xs"
proof (induction xs)
  case Nil
  show ?case by (simp add: arraySort_def)
next
  case (Cons x xs)
  then have ih: "arraySort cmp xs = arraySort cmp' xs" by simp
  have "\<forall>y \<in> set (arraySort cmp' xs). cmp x y = cmp' x y"
    using Cons.prems by (simp add: set_arraySort)
  then have "insertBy cmp x (arraySort cmp' xs) = insertBy cmp' x (arraySort cmp' xs)"
    by (rule insertBy_cong)
  with ih show ?case by (simp add: arraySort_def)
qed

lemma arraySort_keyed:
  assumes "\<forall>e \<in> set es. wellKeyed cfg e"
  shows "arraySort (compareEntries ev cfg) es = arraySort (keyCompare ev cfg) es"
  using assms by (intro arraySort_cong) (simp add: compareEntries_keyed)

text \<open>
  C4 (amended): let the locale's comparison of paths be a consistent comparator and let
  every entry have line and column, and \<open>ruleId\<close> when grouping is on. Then the sorted
  list is a permutation of the flattened list; it is ordered by the five-key tuple
  comparison (severity, then \<open>ruleId\<close> when grouping is on, then path, then line, then
  column, each ascending): every entry is before or key-equal to every later one; and
  the entries equal on all five keys keep their relative order of the input.
\<close>

theorem C4_sort_order:
  assumes "consistent (localeCompare ev)" and "\<forall>e \<in> set es. wellKeyed cfg e"
  shows "mset (arraySort (compareEntries ev cfg) es) = mset es
   \<and> sorted_wrt (\<lambda>a b. specBefore ev cfg a b \<or> sameKeys ev cfg a b)
        (arraySort (compareEntries ev cfg) es)
   \<and> (\<forall>k. filter (sameKeys ev cfg k) (arraySort (compareEntries ev cfg) es) =
           filter (sameKeys ev cfg k) es)"
proof -
  have c: "consistent (keyCompare ev cfg)"
    using assms(1) by (rule consistent_keyCompare)
  have eq: "arraySort (compareEntries ev cfg) es = arraySort (keyCompare ev cfg) es"
    using assms(2) by (rule arraySort_keyed)
  have le: "(\<lambda>a b. keyCompare ev cfg a b \<le> 0) =
            (\<lambda>a b. specBefore ev cfg a b \<or> sameKeys ev cfg a b)"
    by (intro ext) (rule keyCompare_le)
  have z: "(\<lambda>y. keyCompare ev cfg k y = 0) = sameKeys ev cfg k" for k
    by (intro ext) (rule keyCompare_zero)
  have 1: "mset (arraySort (compareEntries ev cfg) es) = mset es"
    by (rule mset_arraySort)
  have 2: "sorted_wrt (\<lambda>a b. specBefore ev cfg a b \<or> sameKeys ev cfg a b)
        (arraySort (compareEntries ev cfg) es)"
    using sorted_arraySort [OF c, of es] by (simp only: eq le)
  have 3: "filter (sameKeys ev cfg k) (arraySort (compareEntries ev cfg) es) =
           filter (sameKeys ev cfg k) es" for k
    using stable_arraySort [OF c, of k es] by (simp only: eq z)
  show ?thesis
    using 1 2 3 by blast
qed

lemma consistent_codeUnitCompare: "consistent codeUnitCompare"
  unfolding consistent_def codeUnitCompare_def by auto

lemma filePath_entryOf:
  "filePath (entryOf ev cfg r m) =
     (if absolutePathsToFile cfg then resolve ev (fileResult.filePath r)
      else fileResult.filePath r)"
  by (simp add: entryOf_def message.defs entry.defs)

lemma localeCompare_plainEnv: "localeCompare plainEnv = codeUnitCompare"
  by (simp add: plainEnv_def)

lemmas entryOf_fields =
  ruleId_entryOf severity_entryOf fatal_entryOf line_entryOf column_entryOf message_entryOf
  source_entryOf filePath_entryOf

text \<open>
  C4 as stated fails in four ways. Two diagnostics that agree on all five keys keep the
  order of the input, so the order of the rows follows the input order: swapping them in
  the input swaps them in the sorted list. With grouping on, a diagnostic without
  \<open>ruleId\<close> compares neither greater nor less than one with a \<open>ruleId\<close>, so the
  comparison falls through to the path; it is sorted after \<open>semi\<close> here, not first.
  A diagnostic without \<open>line\<close> compares neither greater nor less than one at line 2
  (lines 144 to 149 compare \<^verbatim>\<open>a.line\<close> itself, without the \<^verbatim>\<open>|| 0\<close> of line
  185), so it stays behind it, and its row, which shows line 0, comes after the row of
  line 2. The same holds for a diagnostic without \<open>column\<close> behind one at column 5. In
  each of the last two lists the two comparisons are 0 both ways, so every stable sort
  leaves the list as it is.
\<close>

theorem C4_sort_order_counterexample:
  "compareEntries plainEnv noOptions (flatten plainEnv noOptions tiedResults ! 0)
     (flatten plainEnv noOptions tiedResults ! 1) = 0
   \<and> map message (arraySort (compareEntries plainEnv noOptions)
                    (flatten plainEnv noOptions tiedResults)) =
       [''Missing semicolon.'', ''Strings must use singlequote.'']
   \<and> map message (arraySort (compareEntries plainEnv noOptions)
                    (flatten plainEnv noOptions tiedResultsSwapped)) =
       [''Strings must use singlequote.'', ''Missing semicolon.'']
   \<and> map ruleId (arraySort (compareEntries plainEnv groupOptions)
                   (flatten plainEnv groupOptions parseResults)) =
       [Some ''semi'', None]
   \<and> map line (arraySort (compareEntries plainEnv noOptions)
                 (flatten plainEnv noOptions noLineResults)) =
       [Some 2, None]
   \<and> rowOf plainEnv (arraySort (compareEntries plainEnv noOptions)
                       (flatten plainEnv noOptions noLineResults) ! 1) ! 3 =
       marker @ ''a.js : 0:1'' @ marker
   \<and> map column (arraySort (compareEntries plainEnv noOptions)
                   (flatten plainEnv noOptions noColumnResults)) =
       [Some 5, None]
   \<and> rowOf plainEnv (arraySort (compareEntries plainEnv noOptions)
                       (flatten plainEnv noOptions noColumnResults) ! 1) ! 3 =
       marker @ ''a.js : 1:0'' @ marker"
proof -
  let ?r = "\<lparr>fileResult.filePath = ''a.js'', messages = Some [semiMessage, quotesMessage]\<rparr>"
  let ?r' = "\<lparr>fileResult.filePath = ''a.js'', messages = Some [quotesMessage, semiMessage]\<rparr>"
  let ?s = "entryOf plainEnv noOptions ?r semiMessage"
  let ?q = "entryOf plainEnv noOptions ?r quotesMessage"
  let ?s' = "entryOf plainEnv noOptions ?r' semiMessage"
  let ?q' = "entryOf plainEnv noOptions ?r' quotesMessage"
  have f1: "flatten plainEnv noOptions tiedResults = [?s, ?q]"
    by (simp add: flatten_def tiedResults_def)
  have f2: "flatten plainEnv noOptions tiedResultsSwapped = [?q', ?s']"
    by (simp add: flatten_def tiedResultsSwapped_def)
  have c1: "compareEntries plainEnv noOptions ?s ?q = 0"
    by (simp add: compareEntries_def entryOf_fields semiMessage_def quotesMessage_def
        noOptions_def localeCompare_plainEnv codeUnitCompare_def)
  have c2: "compareEntries plainEnv noOptions ?q' ?s' = 0"
    by (simp add: compareEntries_def entryOf_fields semiMessage_def quotesMessage_def
        noOptions_def localeCompare_plainEnv codeUnitCompare_def)
  have m: "message ?s = ''Missing semicolon.''" "message ?q = ''Strings must use singlequote.''"
    "message ?s' = ''Missing semicolon.''" "message ?q' = ''Strings must use singlequote.''"
    by (simp_all add: message_entryOf semiMessage_def quotesMessage_def)
  have 1: "compareEntries plainEnv noOptions (flatten plainEnv noOptions tiedResults ! 0)
     (flatten plainEnv noOptions tiedResults ! 1) = 0"
    by (simp add: f1 c1)
  have 2: "map message (arraySort (compareEntries plainEnv noOptions)
                    (flatten plainEnv noOptions tiedResults)) =
       [''Missing semicolon.'', ''Strings must use singlequote.'']"
    by (simp add: f1 arraySort_def c1 m)
  have 3: "map message (arraySort (compareEntries plainEnv noOptions)
                    (flatten plainEnv noOptions tiedResultsSwapped)) =
       [''Strings must use singlequote.'', ''Missing semicolon.'']"
    by (simp add: f2 arraySort_def c2 m)
  let ?a = "\<lparr>fileResult.filePath = ''a.js'', messages = Some [semiMessage]\<rparr>"
  let ?b = "\<lparr>fileResult.filePath = ''b.js'', messages = Some [parseErrorMessage]\<rparr>"
  let ?sa = "entryOf plainEnv groupOptions ?a semiMessage"
  let ?pb = "entryOf plainEnv groupOptions ?b parseErrorMessage"
  have f3: "flatten plainEnv groupOptions parseResults = [?sa, ?pb]"
    by (simp add: flatten_def parseResults_def)
  have c3: "compareEntries plainEnv groupOptions ?sa ?pb = - 1"
    by (simp add: compareEntries_def entryOf_fields semiMessage_def parseErrorMessage_def
        groupOptions_def localeCompare_plainEnv codeUnitCompare_def)
  have r: "ruleId ?sa = Some ''semi''" "ruleId ?pb = None"
    by (simp_all add: ruleId_entryOf semiMessage_def parseErrorMessage_def)
  have 4: "map ruleId (arraySort (compareEntries plainEnv groupOptions)
                   (flatten plainEnv groupOptions parseResults)) =
       [Some ''semi'', None]"
    by (simp add: f3 arraySort_def c3 r)
  let ?rl = "\<lparr>fileResult.filePath = ''a.js'', messages = Some [lineTwoMessage, noLineMessage]\<rparr>"
  let ?l2 = "entryOf plainEnv noOptions ?rl lineTwoMessage"
  let ?nl = "entryOf plainEnv noOptions ?rl noLineMessage"
  have f5: "flatten plainEnv noOptions noLineResults = [?l2, ?nl]"
    by (simp add: flatten_def noLineResults_def)
  have c5: "compareEntries plainEnv noOptions ?l2 ?nl = 0"
    by (simp add: compareEntries_def entryOf_fields lineTwoMessage_def noLineMessage_def
        noOptions_def localeCompare_plainEnv codeUnitCompare_def)
  have s5: "arraySort (compareEntries plainEnv noOptions) [?l2, ?nl] = [?l2, ?nl]"
    by (simp add: arraySort_def c5)
  have l5: "line ?l2 = Some 2" "line ?nl = None" "column ?nl = Some 1" "source ?nl = None"
    "filePath ?nl = ''a.js''"
    by (simp_all add: entryOf_fields lineTwoMessage_def noLineMessage_def noOptions_def)
  have 5: "map line (arraySort (compareEntries plainEnv noOptions)
                 (flatten plainEnv noOptions noLineResults)) = [Some 2, None]"
    by (simp add: f5 s5 l5)
  have 6: "rowOf plainEnv (arraySort (compareEntries plainEnv noOptions)
                       (flatten plainEnv noOptions noLineResults) ! 1) ! 3 =
       marker @ ''a.js : 0:1'' @ marker"
    by (simp add: f5 s5 rowOf_def Let_def l5 hasSource_def chalk_plainEnv digits_small)
  let ?rc = "\<lparr>fileResult.filePath = ''a.js'',
               messages = Some [columnFiveMessage, noColumnMessage]\<rparr>"
  let ?c5 = "entryOf plainEnv noOptions ?rc columnFiveMessage"
  let ?nc = "entryOf plainEnv noOptions ?rc noColumnMessage"
  have f7: "flatten plainEnv noOptions noColumnResults = [?c5, ?nc]"
    by (simp add: flatten_def noColumnResults_def)
  have c7: "compareEntries plainEnv noOptions ?c5 ?nc = 0"
    by (simp add: compareEntries_def entryOf_fields columnFiveMessage_def noColumnMessage_def
        noOptions_def localeCompare_plainEnv codeUnitCompare_def)
  have s7: "arraySort (compareEntries plainEnv noOptions) [?c5, ?nc] = [?c5, ?nc]"
    by (simp add: arraySort_def c7)
  have l7: "column ?c5 = Some 5" "column ?nc = None" "line ?nc = Some 1" "source ?nc = None"
    "filePath ?nc = ''a.js''"
    by (simp_all add: entryOf_fields columnFiveMessage_def noColumnMessage_def noOptions_def)
  have 7: "map column (arraySort (compareEntries plainEnv noOptions)
                   (flatten plainEnv noOptions noColumnResults)) = [Some 5, None]"
    by (simp add: f7 s7 l7)
  have 8: "rowOf plainEnv (arraySort (compareEntries plainEnv noOptions)
                       (flatten plainEnv noOptions noColumnResults) ! 1) ! 3 =
       marker @ ''a.js : 1:0'' @ marker"
    by (simp add: f7 s7 rowOf_def Let_def l7 hasSource_def chalk_plainEnv digits_small)
  show ?thesis
    using 1 2 3 4 5 6 7 8 by blast
qed

theorem C4_sort_order_witness:
  "consistent (localeCompare plainEnv)
   \<and> list_all (wellKeyed groupOptions) (flatten plainEnv groupOptions groupedResults)
   \<and> mset (arraySort (compareEntries plainEnv groupOptions)
             (flatten plainEnv groupOptions groupedResults)) =
       mset (flatten plainEnv groupOptions groupedResults)
   \<and> sorted_wrt (\<lambda>a b. specBefore plainEnv groupOptions a b \<or> sameKeys plainEnv groupOptions a b)
        (arraySort (compareEntries plainEnv groupOptions)
           (flatten plainEnv groupOptions groupedResults))
   \<and> filter (sameKeys plainEnv groupOptions (hd (flatten plainEnv groupOptions groupedResults)))
        (arraySort (compareEntries plainEnv groupOptions)
           (flatten plainEnv groupOptions groupedResults)) =
       filter (sameKeys plainEnv groupOptions (hd (flatten plainEnv groupOptions groupedResults)))
         (flatten plainEnv groupOptions groupedResults)
   \<and> map (\<lambda>e. (ruleKey e, filePath e))
        (arraySort (compareEntries plainEnv groupOptions)
           (flatten plainEnv groupOptions groupedResults)) =
       [(''quotes'', ''b.js''), (''semi'', ''a.js''), (''semi'', ''b.js'')]"
proof -
  let ?b = "\<lparr>fileResult.filePath = ''b.js'', messages = Some [semiMessage, quotesMessage]\<rparr>"
  let ?a = "\<lparr>fileResult.filePath = ''a.js'', messages = Some [semiMessage]\<rparr>"
  let ?sb = "entryOf plainEnv groupOptions ?b semiMessage"
  let ?qb = "entryOf plainEnv groupOptions ?b quotesMessage"
  let ?sa = "entryOf plainEnv groupOptions ?a semiMessage"
  have fl: "flatten plainEnv groupOptions groupedResults = [?sb, ?qb, ?sa]"
    by (simp add: flatten_def groupedResults_def)
  have h1: "consistent (localeCompare plainEnv)"
    by (simp add: localeCompare_plainEnv consistent_codeUnitCompare)
  have wk: "wellKeyed groupOptions ?sb" "wellKeyed groupOptions ?qb" "wellKeyed groupOptions ?sa"
    by (simp_all add: wellKeyed_def entryOf_fields semiMessage_def quotesMessage_def)
  have h2: "\<forall>e \<in> set (flatten plainEnv groupOptions groupedResults). wellKeyed groupOptions e"
    by (simp add: fl wk)
  have c: "compareEntries plainEnv groupOptions ?qb ?sa = - 1"
    "compareEntries plainEnv groupOptions ?sb ?qb = 1"
    "compareEntries plainEnv groupOptions ?sb ?sa = 1"
    by (simp_all add: compareEntries_def entryOf_fields semiMessage_def quotesMessage_def
        groupOptions_def localeCompare_plainEnv codeUnitCompare_def)
  have k: "ruleKey ?sb = ''semi''" "ruleKey ?qb = ''quotes''" "ruleKey ?sa = ''semi''"
    "filePath ?sb = ''b.js''" "filePath ?qb = ''b.js''" "filePath ?sa = ''a.js''"
    by (simp_all add: ruleKey_def entryOf_fields semiMessage_def quotesMessage_def
        groupOptions_def)
  have ev: "map (\<lambda>e. (ruleKey e, filePath e))
        (arraySort (compareEntries plainEnv groupOptions)
           (flatten plainEnv groupOptions groupedResults)) =
       [(''quotes'', ''b.js''), (''semi'', ''a.js''), (''semi'', ''b.js'')]"
    by (simp add: fl arraySort_def c k)
  from C4_sort_order [OF h1 h2] h1 h2 ev
  show ?thesis
    by (simp add: list_all_iff)
qed

subsection \<open>Flattening copies\<close>

lemma upt_first: "[n ..< n + Suc k] = n # [Suc n ..< Suc n + k]"
  by (simp add: upt_conv_Cons)

lemma upt_split: "[n ..< n + a] @ [n + a ..< n + a + b] = [n ..< n + (a + b)]"
  using upt_add_eq_append [of n "n + a" b] by (simp add: add.assoc)

lemma copyMessage_eq:
  assumes "m < length h"
  shows "copyMessage ev cfg r h m = (h @ [copyOf ev cfg h (r, m)], length h)"
  using assms
  by (simp add: copyMessage_def newObject_def extend_def copyOf_def nth_append)

lemma copyOf_append:
  "a < length h \<Longrightarrow> copyOf ev cfg (h @ hs) (r, a) = copyOf ev cfg h (r, a)"
  by (simp add: copyOf_def nth_append)

lemma mapMessages_eq:
  assumes "\<forall>a \<in> set ms. a < length h"
  shows "mapMessages ev cfg r h ms =
         (h @ map (\<lambda>a. copyOf ev cfg h (r, a)) ms, [length h ..< length h + length ms])"
  using assms
proof (induction ms arbitrary: h)
  case Nil
  show ?case by simp
next
  case (Cons m ms)
  let ?h1 = "h @ [copyOf ev cfg h (r, m)]"
  from Cons.prems have m: "m < length h" and ms: "\<forall>a \<in> set ms. a < length h"
    by simp_all
  from ms have "\<forall>a \<in> set ms. a < length ?h1" by auto
  then have ih: "mapMessages ev cfg r ?h1 ms =
         (?h1 @ map (\<lambda>a. copyOf ev cfg ?h1 (r, a)) ms, [length ?h1 ..< length ?h1 + length ms])"
    by (rule Cons.IH)
  have cp: "map (\<lambda>a. copyOf ev cfg ?h1 (r, a)) ms = map (\<lambda>a. copyOf ev cfg h (r, a)) ms"
    using ms by (intro map_cong) (simp_all add: copyOf_append)
  show ?case
    using m upt_first [of "length h" "length ms"] by (simp add: copyMessage_eq ih cp)
qed

lemma flattenStore_eq:
  assumes "\<forall>r \<in> set results. \<forall>a \<in> set (case messages r of None \<Rightarrow> [] | Some ms \<Rightarrow> ms).
             a < length h"
  shows "flattenStore ev cfg h entries results =
         (h @ map (copyOf ev cfg h) (refPairs results),
          entries @ [length h ..< length h + length (refPairs results)])"
  using assms
proof (induction results arbitrary: h entries)
  case Nil
  show ?case by (simp add: refPairs_def)
next
  case (Cons r rs)
  let ?ms = "case messages r of None \<Rightarrow> [] | Some ms \<Rightarrow> ms"
  let ?h1 = "h @ map (\<lambda>a. copyOf ev cfg h (r, a)) ?ms"
  from Cons.prems have ms: "\<forall>a \<in> set ?ms. a < length h"
    and rs: "\<forall>r \<in> set rs. \<forall>a \<in> set (case messages r of None \<Rightarrow> [] | Some ms \<Rightarrow> ms).
             a < length h"
    by simp_all
  from rs have rs1: "\<forall>r \<in> set rs. \<forall>a \<in> set (case messages r of None \<Rightarrow> [] | Some ms \<Rightarrow> ms).
             a < length ?h1"
    by fastforce
  have mm: "mapMessages ev cfg r h ?ms = (?h1, [length h ..< length h + length ?ms])"
    using ms by (rule mapMessages_eq)
  have ih: "flattenStore ev cfg ?h1 (entries @ [length h ..< length h + length ?ms]) rs =
         (?h1 @ map (copyOf ev cfg ?h1) (refPairs rs),
          (entries @ [length h ..< length h + length ?ms]) @
            [length ?h1 ..< length ?h1 + length (refPairs rs)])"
    using rs1 by (rule Cons.IH)
  have cp: "map (copyOf ev cfg ?h1) (refPairs rs) = map (copyOf ev cfg h) (refPairs rs)"
  proof (intro map_cong refl)
    fix p assume "p \<in> set (refPairs rs)"
    then obtain r' a where p: "p = (r', a)" and "r' \<in> set rs"
      and "a \<in> set (case messages r' of None \<Rightarrow> [] | Some ms \<Rightarrow> ms)"
      by (auto simp add: refPairs_def)
    with rs have "a < length h" by blast
    then show "copyOf ev cfg ?h1 p = copyOf ev cfg h p"
      unfolding p by (rule copyOf_append)
  qed
  have rp: "refPairs (r # rs) = map (Pair r) ?ms @ refPairs rs"
    by (simp add: refPairs_def)
  have up: "[length h ..< length h + length ?ms] @
            [length h + length ?ms ..< length h + length ?ms + length (refPairs rs)] =
            [length h ..< length h + (length ?ms + length (refPairs rs))]"
    by (rule upt_split)
  show ?case
    using up by (simp add: mm ih cp rp comp_def)
qed

lemma copyOf_other: "name \<noteq> ''filePath'' \<Longrightarrow> copyOf ev cfg h (r, a) name = (h ! a) name"
  by (simp add: copyOf_def map_add_def split: option.splits)

lemma copyOf_filePath:
  "(h ! a) ''filePath'' = None \<Longrightarrow>
   copyOf ev cfg h (r, a) ''filePath'' = Some (JStr (pathOf ev cfg r))"
  by (simp add: copyOf_def map_add_def)

text \<open>
  C9: flattening leaves every object of the engine as it is and makes one new object per
  message. The new object has the properties of its message, each with the value the
  message has, and the property \<open>filePath\<close>, whose value is the path of the file result,
  resolved once when absolute paths are on (a \<open>filePath\<close> of the message's own, which no
  message of the engine has, would stay).
\<close>

theorem C9_flatten_copies:
  assumes "\<forall>r \<in> set results. \<forall>a \<in> set (case messages r of None \<Rightarrow> [] | Some ms \<Rightarrow> ms).
             a < length h"
      and "flattenStore ev cfg h [] results = (h', es)"
  shows "take (length h) h' = h
   \<and> es = [length h ..< length h']
   \<and> map ((!) h') es =
       map (\<lambda>(r, a). [''filePath'' \<mapsto>
                        JStr (if absolutePathsToFile cfg then resolve ev (fileResult.filePath r)
                              else fileResult.filePath r)] ++ (h ! a))
         (refPairs results)
   \<and> (\<forall>i < length es. \<forall>name. name \<noteq> ''filePath'' \<longrightarrow>
         (h' ! (es ! i)) name = (h ! snd (refPairs results ! i)) name)
   \<and> (\<forall>i < length es. (h ! snd (refPairs results ! i)) ''filePath'' = None \<longrightarrow>
         (h' ! (es ! i)) ''filePath'' =
         Some (JStr (if absolutePathsToFile cfg
                     then resolve ev (fileResult.filePath (fst (refPairs results ! i)))
                     else fileResult.filePath (fst (refPairs results ! i)))))"
proof -
  let ?ps = "refPairs results"
  have eq: "flattenStore ev cfg h [] results =
        (h @ map (copyOf ev cfg h) ?ps, [] @ [length h ..< length h + length ?ps])"
    using assms(1) by (rule flattenStore_eq)
  with assms(2) have h': "h' = h @ map (copyOf ev cfg h) ?ps"
    and es: "es = [length h ..< length h + length ?ps]"
    by simp_all
  have co: "copyOf ev cfg h =
     (\<lambda>(r, a). [''filePath'' \<mapsto>
                        JStr (if absolutePathsToFile cfg then resolve ev (fileResult.filePath r)
                              else fileResult.filePath r)] ++ (h ! a))"
    by (simp add: copyOf_def pathOf_def)
  have nth: "h' ! (es ! i) = copyOf ev cfg h (?ps ! i)" if "i < length es" for i
    using that by (simp add: h' es nth_append)
  have 1: "take (length h) h' = h"
    by (simp add: h')
  have 2: "es = [length h ..< length h']"
    by (simp add: h' es)
  have "map ((!) h') es = map (copyOf ev cfg h) ?ps"
    by (rule nth_equalityI) (simp_all add: es h' nth_append)
  then have 3: "map ((!) h') es =
       map (\<lambda>(r, a). [''filePath'' \<mapsto>
                        JStr (if absolutePathsToFile cfg then resolve ev (fileResult.filePath r)
                              else fileResult.filePath r)] ++ (h ! a)) ?ps"
    by (simp only: co)
  have 4: "\<forall>i < length es. \<forall>name. name \<noteq> ''filePath'' \<longrightarrow>
         (h' ! (es ! i)) name = (h ! snd (?ps ! i)) name"
  proof (intro allI impI)
    fix i name assume i: "i < length es" and n: "name \<noteq> ''filePath''"
    have "copyOf ev cfg h (fst (?ps ! i), snd (?ps ! i)) name = (h ! snd (?ps ! i)) name"
      using n by (rule copyOf_other)
    then show "(h' ! (es ! i)) name = (h ! snd (?ps ! i)) name"
      using i by (simp add: nth)
  qed
  have 5: "\<forall>i < length es. (h ! snd (?ps ! i)) ''filePath'' = None \<longrightarrow>
         (h' ! (es ! i)) ''filePath'' =
         Some (JStr (if absolutePathsToFile cfg
                     then resolve ev (fileResult.filePath (fst (?ps ! i)))
                     else fileResult.filePath (fst (?ps ! i))))"
  proof (intro allI impI)
    fix i assume i: "i < length es" and n: "(h ! snd (?ps ! i)) ''filePath'' = None"
    have "copyOf ev cfg h (fst (?ps ! i), snd (?ps ! i)) ''filePath'' =
          Some (JStr (pathOf ev cfg (fst (?ps ! i))))"
      using n by (rule copyOf_filePath)
    then show "(h' ! (es ! i)) ''filePath'' =
         Some (JStr (if absolutePathsToFile cfg
                     then resolve ev (fileResult.filePath (fst (?ps ! i)))
                     else fileResult.filePath (fst (?ps ! i))))"
      using i by (simp add: nth pathOf_def)
  qed
  show ?thesis
    using 1 2 3 4 5 by blast
qed

subsection \<open>The store model and the value model agree\<close>

lemma entryOf_record:
  "entryOf ev cfg r m =
     \<lparr>ruleId = ruleId m, severity = severity m, fatal = fatal m, line = line m,
      column = column m, message = message m, source = source m,
      filePath = pathOf ev cfg r\<rparr>"
  by (cases m) (simp add: entryOf_def pathOf_def message.defs entry.defs)

lemma readEntry_copy:
  assumes "h ! a = objOf m"
  shows "readEntry (copyOf ev cfg h (ra, a)) = entryOf ev cfg ra m"
proof -
  let ?ob = "copyOf ev cfg h (ra, a)"
  have p: "?ob ''filePath'' = Some (JStr (pathOf ev cfg ra))"
    by (simp add: copyOf_def assms objOf_def map_add_def)
  have o: "?ob name = objOf m name" if "name \<noteq> ''filePath''" for name
    using that by (simp add: copyOf_other assms)
  have f: "?ob ''ruleId'' = map_option JStr (ruleId m)"
    "?ob ''severity'' = Some (JNum (severity m))"
    "?ob ''fatal'' = map_option JBool (fatal m)"
    "?ob ''line'' = map_option JNum (line m)"
    "?ob ''column'' = map_option JNum (column m)"
    "?ob ''message'' = Some (JStr (message m))"
    "?ob ''source'' = map_option JStr (source m)"
    by (simp_all add: o objOf_def)
  have "readEntry ?ob =
     \<lparr>ruleId = ruleId m, severity = severity m, fatal = fatal m, line = line m,
      column = column m, message = message m, source = source m,
      filePath = pathOf ev cfg ra\<rparr>"
    unfolding readEntry_def readStr_def readNum_def readBool_def f p
    by (simp split: option.splits)
  then show ?thesis
    by (simp add: entryOf_record)
qed

lemma foldl_append_concat: "foldl (\<lambda>acc r. acc @ f r) a rs = a @ concat (map f rs)"
  by (induction rs arbitrary: a) simp_all

lemma flatten_concat:
  "flatten ev cfg rs =
     concat (map (\<lambda>r. map (entryOf ev cfg r) (case messages r of None \<Rightarrow> [] | Some ms \<Rightarrow> ms)) rs)"
  using foldl_append_concat
    [of "\<lambda>r. map (entryOf ev cfg r) (case messages r of None \<Rightarrow> [] | Some ms \<Rightarrow> ms)" "[]" rs]
  by (simp add: flatten_def Let_def)

lemma pathOf_cong:
  "fileResult.filePath ra = fileResult.filePath rv \<Longrightarrow> pathOf ev cfg ra = pathOf ev cfg rv"
  by (simp add: pathOf_def)

lemma entryOf_cong:
  "fileResult.filePath ra = fileResult.filePath rv \<Longrightarrow> entryOf ev cfg ra m = entryOf ev cfg rv m"
  by (simp add: entryOf_def)

lemma read_messages:
  assumes "list_all2 (\<lambda>a m. a < length h \<and> h ! a = objOf m) as ms"
    and "fileResult.filePath ra = fileResult.filePath rv"
  shows "map (\<lambda>a. readEntry (copyOf ev cfg h (ra, a))) as = map (entryOf ev cfg rv) ms"
  using assms(1)
proof (induction rule: list_all2_induct)
  case Nil
  show ?case by simp
next
  case (Cons a as m ms)
  then show ?case
    using entryOf_cong [OF assms(2)] by (simp add: readEntry_copy)
qed

lemma represents_valid:
  assumes "represents h refs vals"
  shows "\<forall>r \<in> set refs. \<forall>a \<in> set (case messages r of None \<Rightarrow> [] | Some ms \<Rightarrow> ms). a < length h"
  using assms unfolding represents_def
proof (induction rule: list_all2_induct)
  case Nil
  show ?case by simp
next
  case (Cons ra refs rv vals)
  have "\<forall>a \<in> set (case messages ra of None \<Rightarrow> [] | Some ms \<Rightarrow> ms). a < length h"
  proof (cases "messages ra")
    case None
    then show ?thesis by simp
  next
    case (Some as)
    with Cons.hyps(1) obtain ms where "list_all2 (\<lambda>a m. a < length h \<and> h ! a = objOf m) as ms"
      by (auto simp add: option_rel_Some1)
    then have "\<forall>a \<in> set as. a < length h"
      by (auto simp add: list_all2_conv_all_nth in_set_conv_nth)
    with Some show ?thesis by simp
  qed
  with Cons.IH show ?case by simp
qed

lemma read_pairs:
  assumes "represents h refs vals"
  shows "map (readEntry \<circ> copyOf ev cfg h) (refPairs refs) = flatten ev cfg vals"
  using assms unfolding represents_def flatten_concat refPairs_def
proof (induction rule: list_all2_induct)
  case Nil
  show ?case by simp
next
  case (Cons ra refs rv vals)
  from Cons.hyps(1) have fp: "fileResult.filePath ra = fileResult.filePath rv"
    and ro: "rel_option (list_all2 (\<lambda>a m. a < length h \<and> h ! a = objOf m))
               (messages ra) (messages rv)"
    by simp_all
  have "map (\<lambda>a. readEntry (copyOf ev cfg h (ra, a)))
          (case messages ra of None \<Rightarrow> [] | Some ms \<Rightarrow> ms) =
        map (entryOf ev cfg rv) (case messages rv of None \<Rightarrow> [] | Some ms \<Rightarrow> ms)"
  proof (cases "messages ra")
    case None
    with ro have "messages rv = None" by (cases "messages rv") simp_all
    with None show ?thesis by simp
  next
    case (Some as)
    with ro obtain ms where rv: "messages rv = Some ms"
      and l: "list_all2 (\<lambda>a m. a < length h \<and> h ! a = objOf m) as ms"
      by (auto simp add: option_rel_Some1)
    show ?thesis
      using read_messages [OF l fp] by (simp add: Some rv)
  qed
  with Cons.IH show ?case
    by (simp add: comp_def)
qed

lemma flattenStore_refines:
  assumes "represents h refs vals" and "flattenStore ev cfg h [] refs = (h', es)"
  shows "map (\<lambda>e. readEntry (h' ! e)) es = flatten ev cfg vals"
proof -
  let ?ps = "refPairs refs"
  have "flattenStore ev cfg h [] refs =
        (h @ map (copyOf ev cfg h) ?ps, [] @ [length h ..< length h + length ?ps])"
    using represents_valid [OF assms(1)] by (rule flattenStore_eq)
  with assms(2) have h': "h' = h @ map (copyOf ev cfg h) ?ps"
    and es: "es = [length h ..< length h + length ?ps]"
    by simp_all
  have "map (\<lambda>e. readEntry (h' ! e)) es = map (readEntry \<circ> copyOf ev cfg h) ?ps"
    by (rule nth_equalityI) (simp_all add: es h' nth_append)
  then show ?thesis
    by (simp add: read_pairs [OF assms(1)])
qed

theorem C9_flatten_copies_witness:
  "0 < length sampleHeap \<and> 1 < length sampleHeap
   \<and> flattenStore plainEnv absOptions sampleHeap [] sampleRefs =
       (sampleHeap @
          [[''filePath'' \<mapsto> JStr ''/cwd/a.js''] ++ objOf semiMessage,
           [''filePath'' \<mapsto> JStr ''/cwd/a.js''] ++ objOf unusedMessage],
        [2, 3])
   \<and> take (length sampleHeap)
        (sampleHeap @
          [[''filePath'' \<mapsto> JStr ''/cwd/a.js''] ++ objOf semiMessage,
           [''filePath'' \<mapsto> JStr ''/cwd/a.js''] ++ objOf unusedMessage]) = sampleHeap
   \<and> ([''filePath'' \<mapsto> JStr ''/cwd/a.js''] ++ objOf semiMessage) ''ruleId'' =
       (sampleHeap ! 0) ''ruleId''
   \<and> (sampleHeap ! 0) ''filePath'' = None
   \<and> ([''filePath'' \<mapsto> JStr ''/cwd/a.js''] ++ objOf semiMessage) ''filePath'' =
       Some (JStr ''/cwd/a.js'')"
proof -
  let ?A = "[''filePath'' \<mapsto> JStr ''/cwd/a.js''] ++ objOf semiMessage"
  let ?B = "[''filePath'' \<mapsto> JStr ''/cwd/a.js''] ++ objOf unusedMessage"
  let ?h' = "sampleHeap @ [?A, ?B]"
  have len: "length sampleHeap = 2"
    by (simp add: sampleHeap_def)
  have n0: "sampleHeap ! 0 = objOf semiMessage" and n1: "sampleHeap ! Suc 0 = objOf unusedMessage"
    by (simp_all add: sampleHeap_def)
  have valid: "\<forall>r \<in> set sampleRefs.
      \<forall>a \<in> set (case messages r of None \<Rightarrow> [] | Some ms \<Rightarrow> ms). a < length sampleHeap"
    by (simp add: sampleRefs_def len)
  have path: "pathOf plainEnv absOptions r = ''/cwd/a.js''"
    if "fileResult.filePath r = ''a.js''" for r :: "nat fileResult"
    using that by (simp add: pathOf_def absOptions_def plainEnv_def)
  have rp: "refPairs sampleRefs =
      [(\<lparr>fileResult.filePath = ''a.js'', messages = Some [0, 1]\<rparr>, 0),
       (\<lparr>fileResult.filePath = ''a.js'', messages = Some [0, 1]\<rparr>, 1)]"
    by (simp add: refPairs_def sampleRefs_def)
  have fe: "flattenStore plainEnv absOptions sampleHeap [] sampleRefs =
      (sampleHeap @ map (copyOf plainEnv absOptions sampleHeap) (refPairs sampleRefs),
       [] @ [length sampleHeap ..< length sampleHeap + length (refPairs sampleRefs)])"
    using valid by (rule flattenStore_eq)
  have cp: "map (copyOf plainEnv absOptions sampleHeap) (refPairs sampleRefs) = [?A, ?B]"
    by (simp add: rp copyOf_def path n0 n1)
  have up: "[length sampleHeap ..< length sampleHeap + length (refPairs sampleRefs)] = [2, 3]"
    by (simp add: len rp upt_rec [of 2] upt_rec [of 3])
  have run: "flattenStore plainEnv absOptions sampleHeap [] sampleRefs = (?h', [2, 3])"
    by (simp only: fe cp up append_Nil)
  have nofp: "(sampleHeap ! 0) ''filePath'' = None"
    by (simp add: n0 objOf_def)
  have h'2: "?h' ! 2 = ?A"
    by (simp add: nth_append len)
  from C9_flatten_copies [OF valid run]
  have t: "take (length sampleHeap) ?h' = sampleHeap"
    and o: "\<forall>i < length [2, 3 :: nat]. \<forall>name. name \<noteq> ''filePath'' \<longrightarrow>
         (?h' ! ([2, 3] ! i)) name = (sampleHeap ! snd (refPairs sampleRefs ! i)) name"
    and f: "\<forall>i < length [2, 3 :: nat].
         (sampleHeap ! snd (refPairs sampleRefs ! i)) ''filePath'' = None \<longrightarrow>
         (?h' ! ([2, 3] ! i)) ''filePath'' =
         Some (JStr (if absolutePathsToFile absOptions
                     then resolve plainEnv (fileResult.filePath (fst (refPairs sampleRefs ! i)))
                     else fileResult.filePath (fst (refPairs sampleRefs ! i))))"
    by blast+
  from o [rule_format, of 0 "''ruleId''"]
  have r: "?A ''ruleId'' = (sampleHeap ! 0) ''ruleId''"
    by (simp add: rp h'2)
  from f [rule_format, of 0] nofp
  have p: "?A ''filePath'' = Some (JStr ''/cwd/a.js'')"
    by (simp add: rp h'2 absOptions_def plainEnv_def)
  show ?thesis
    using len run t r nofp p by simp
qed

end
